theory Spec2Isabelle
  imports Main
begin

section \<open>Data model of \<open>simupy/matrices.py\<close>\<close>

text \<open>
  The module works on three kinds of values of its libraries: symbolic expressions and
  dense symbolic matrices (sympy), and numeric arrays (numpy). Every \<^verbatim>\<open>raise\<close> of
  the module and every exception of a library call the module makes is a value of
  \<open>error\<close>; a function that can raise returns \<open>error + 'a\<close>, with \<open>Inl\<close> the
  exception.
\<close>

datatype error =
    InvalidShape          \<comment> \<open>\<^verbatim>\<open>ValueError("Cannot make symmetric or diagonal if n != m")\<close>\<close>
  | NotInList             \<comment> \<open>\<^verbatim>\<open>ValueError\<close> of \<^verbatim>\<open>list.index\<close>: the element is not in the list\<close>
  | ZeroSizedOperand      \<comment> \<open>\<^verbatim>\<open>ValueError\<close> of \<^verbatim>\<open>np.nditer\<close> on an operand with no element\<close>
  | CannotBroadcast       \<comment> \<open>\<^verbatim>\<open>ValueError\<close> of a numpy assignment whose value does not fit\<close>
  | IndexError            \<comment> \<open>an index out of range (tuple, list, sympy matrix, numpy array)\<close>
  | KeyError              \<comment> \<open>a key that a dict does not hold\<close>
  | TypeError             \<comment> \<open>a call with the wrong number of arguments, or a bad subscript\<close>
  | AttributeError        \<comment> \<open>\<^verbatim>\<open>.shape\<close> of an object that has none\<close>
  | ShapeError            \<comment> \<open>sympy's error of \<^verbatim>\<open>row_join\<close> and \<^verbatim>\<open>col_join\<close>\<close>
  | CollaboratorError     \<comment> \<open>whatever the interpolating callable itself raises\<close>

text \<open>
  A symbol carries its name and the keyword arguments (\<^verbatim>\<open>**kwass\<close>) it was made with;
  \<open>Dynamic\<close> is a symbol made by \<^verbatim>\<open>dynamicsymbols\<close> (a function of time). \<open>Integer\<close>
  is a sympy integer; \<open>Integer 0\<close> is the structural zero. \<open>Compound\<close> is any compound
  expression: an operator applied to arguments.
\<close>

type_synonym kwargs = "(string \<times> string) list"

datatype expr =
    Integer int
  | Symbol string kwargs
  | Dynamic string kwargs
  | Compound string "expr list"

text \<open>
  A dense matrix as sympy stores it: the two dimensions and the entries in row-major
  order. numpy's two-dimensional results have the same form.
\<close>

record 'a matrix =
  nrows :: nat
  ncols :: nat
  flat :: "'a list"

definition wf_matrix :: "'a matrix \<Rightarrow> bool" where
  "wf_matrix M = (length (flat M) = nrows M * ncols M)"

definition shape :: "'a matrix \<Rightarrow> nat \<times> nat" where
  "shape M = (nrows M, ncols M)"

definition zeros :: "'a \<Rightarrow> nat \<Rightarrow> nat \<Rightarrow> 'a matrix" where
  "zeros z r c = \<lparr>nrows = r, ncols = c, flat = replicate (r * c) z\<rparr>"

text \<open>\<^verbatim>\<open>M[i, j]\<close> with indices that are not negative: out of range raises.\<close>

definition getitem2 :: "'a matrix \<Rightarrow> nat \<Rightarrow> nat \<Rightarrow> error + 'a" where
  "getitem2 M i j =
     (if i < nrows M \<and> j < ncols M then Inr (flat M ! (i * ncols M + j)) else Inl IndexError)"

text \<open>\<^verbatim>\<open>M[i, j] = v\<close> on a cell in range (the only use the module makes of it).\<close>

definition setitem2 :: "'a matrix \<Rightarrow> nat \<Rightarrow> nat \<Rightarrow> 'a \<Rightarrow> 'a matrix" where
  "setitem2 M i j v = M\<lparr>flat := (flat M)[i * ncols M + j := v]\<rparr>"

text \<open>\<^verbatim>\<open>M.tolist()\<close>: the list of the rows; \<^verbatim>\<open>sp.flatten\<close> of it joins them again.\<close>

definition tolist :: "'a matrix \<Rightarrow> 'a list list" where
  "tolist M = map (\<lambda>i. take (ncols M) (drop (i * ncols M) (flat M))) [0..<nrows M]"

definition flatten :: "'a list list \<Rightarrow> 'a list" where
  "flatten xss = concat xss"

text \<open>
  \<^verbatim>\<open>np.nditer(M, flags=['multi_index', 'refs_ok'])\<close>, read through
  \<^verbatim>\<open>iterator.multi_index\<close>: the cells in row-major order. The flag
  \<^verbatim>\<open>zerosize_ok\<close> is not given, so an operand with no element is refused.
\<close>

definition nditer :: "'a matrix \<Rightarrow> error + (nat \<times> nat) list" where
  "nditer M =
     (if nrows M * ncols M = 0 then Inl ZeroSizedOperand
      else Inr (concat (map (\<lambda>i. map (\<lambda>j. (i, j)) [0..<ncols M]) [0..<nrows M])))"

text \<open>\<^verbatim>\<open>xs.index(x)\<close>: the first position of \<open>x\<close>; \<open>None\<close> is the \<^verbatim>\<open>ValueError\<close>.\<close>

fun index_of :: "'a list \<Rightarrow> 'a \<Rightarrow> nat option" where
  "index_of [] x = None"
| "index_of (y # ys) x =
     (if y = x then Some 0 else (case index_of ys x of None \<Rightarrow> None | Some k \<Rightarrow> Some (Suc k)))"

section \<open>\<open>matrix_callable_from_vector_trajectory\<close>\<close>

text \<open>
  The time argument of the returned callable: one scalar, or a list, tuple or array of
  times.
\<close>

datatype 't time_arg = Scalar 't | Sequence "'t list"

text \<open>
  What the interpolating callable returns: a numpy array of dimension 0, 1 or 2.
  \<^verbatim>\<open>callable_from_trajectory\<close> lives in \<^verbatim>\<open>simupy.utils\<close>; the functions below take
  the callable it returns as the parameter \<open>vector_callable\<close>.
\<close>

datatype 'v ndarray = Arr0 'v | Arr1 "'v list" | Arr2 "'v list list"

text \<open>\<^verbatim>\<open>vector_result[idx]\<close>: indexing along the first axis.\<close>

fun getitem :: "'v ndarray \<Rightarrow> nat \<Rightarrow> error + 'v ndarray" where
  "getitem (Arr0 v) idx = Inl IndexError"
| "getitem (Arr1 vs) idx = (if idx < length vs then Inr (Arr0 (vs ! idx)) else Inl IndexError)"
| "getitem (Arr2 rows) idx = (if idx < length rows then Inr (Arr1 (rows ! idx)) else Inl IndexError)"

text \<open>
  The value stored by \<^verbatim>\<open>matrix_result[i, j] = v\<close> into one cell: a scalar, or an
  array of one element; a longer array is refused. (An item of \<open>vector_result\<close> has at
  most one dimension, so the last equation is never reached.)
\<close>

fun as_scalar :: "'v ndarray \<Rightarrow> error + 'v" where
  "as_scalar (Arr0 v) = Inr v"
| "as_scalar (Arr1 vs) = (case vs of [v] \<Rightarrow> Inr v | _ \<Rightarrow> Inl CannotBroadcast)"
| "as_scalar (Arr2 rows) = Inl CannotBroadcast"

text \<open>
  The values stored by \<^verbatim>\<open>matrix_result[..., i, j] = v\<close> into the \<open>k\<close> cells of the
  first axis: \<open>v\<close> broadcast to length \<open>k\<close>.
\<close>

fun broadcast_to :: "nat \<Rightarrow> 'v ndarray \<Rightarrow> error + 'v list" where
  "broadcast_to k (Arr0 v) = Inr (replicate k v)"
| "broadcast_to k (Arr1 vs) =
     (if length vs = k then Inr vs
      else (case vs of [v] \<Rightarrow> Inr (replicate k v) | _ \<Rightarrow> Inl CannotBroadcast))"
| "broadcast_to k (Arr2 rows) = Inl CannotBroadcast"

text \<open>
  The result of the callable: one matrix (\<^verbatim>\<open>np.matlib.zeros(raveled.shape)\<close>, filled),
  or an array of shape \<open>(k, p, q)\<close> (\<^verbatim>\<open>np.zeros((len(t),) + raveled.shape)\<close>, filled),
  kept as the list of its \<open>k\<close> matrices.
\<close>

datatype 'v matrix_result = Single "'v matrix" | Stacked "'v matrix list"

text \<open>The two assignments of the loop body.\<close>

fun assign :: "'v matrix_result \<Rightarrow> nat \<Rightarrow> nat \<Rightarrow> 'v ndarray \<Rightarrow> error + 'v matrix_result" where
  "assign (Single M) i j v =
     (case as_scalar v of Inl e \<Rightarrow> Inl e | Inr a \<Rightarrow> Inr (Single (setitem2 M i j a)))"
| "assign (Stacked Ms) i j v =
     (case broadcast_to (length Ms) v of
        Inl e \<Rightarrow> Inl e
      | Inr vs \<Rightarrow> Inr (Stacked (map (\<lambda>(M, a). setitem2 M i j a) (zip Ms vs))))"

text \<open>The loop over the cells of \<open>raveled\<close>; the first exception ends it.\<close>

fun fill :: "'s list \<Rightarrow> 's matrix \<Rightarrow> 'v ndarray \<Rightarrow> (nat \<times> nat) list \<Rightarrow> 'v matrix_result
    \<Rightarrow> error + 'v matrix_result" where
  "fill unraveled raveled vector_result [] matrix_result = Inr matrix_result"
| "fill unraveled raveled vector_result ((i, j) # cells) matrix_result =
     (case getitem2 raveled i j of
        Inl e \<Rightarrow> Inl e
      | Inr s \<Rightarrow>
          (case index_of unraveled s of
             None \<Rightarrow> Inl NotInList
           | Some idx \<Rightarrow>
               (case getitem vector_result idx of
                  Inl e \<Rightarrow> Inl e
                | Inr v \<Rightarrow>
                    (case assign matrix_result i j v of
                       Inl e \<Rightarrow> Inl e
                     | Inr matrix_result' \<Rightarrow>
                         fill unraveled raveled vector_result cells matrix_result'))))"

text \<open>\<^verbatim>\<open>isinstance(t, (list, tuple, np.ndarray)) and len(t) > 1\<close>\<close>

fun as_array :: "'t time_arg \<Rightarrow> bool" where
  "as_array (Scalar t) = False"
| "as_array (Sequence ts) = (length ts > 1)"

text \<open>
  \<^verbatim>\<open>np.matlib.zeros(shape)\<close>. The module runs \<^verbatim>\<open>import numpy as np\<close> and never
  imports \<^verbatim>\<open>numpy.matlib\<close>, so the attribute \<^verbatim>\<open>np.matlib\<close> exists only when
  some other module of the process has imported \<^verbatim>\<open>numpy.matlib\<close>; otherwise the
  attribute access raises \<^verbatim>\<open>AttributeError\<close>. \<open>matlib_imported\<close> is that state of the
  process.
\<close>

definition matlib_zeros :: "bool \<Rightarrow> 'v \<Rightarrow> nat \<times> nat \<Rightarrow> error + 'v matrix" where
  "matlib_zeros matlib_imported z s =
     (if matlib_imported then Inr (zeros z (fst s) (snd s)) else Inl AttributeError)"

text \<open>
  The array that the branch on \<^verbatim>\<open>as_array\<close> allocates:
  \<^verbatim>\<open>np.zeros((len(t),) + raveled.shape)\<close>, or \<^verbatim>\<open>np.matlib.zeros(raveled.shape)\<close>.
\<close>

fun initial_result :: "bool \<Rightarrow> 'v \<Rightarrow> 't time_arg \<Rightarrow> nat \<times> nat \<Rightarrow> error + 'v matrix_result" where
  "initial_result matlib_imported z (Scalar t) s =
     (case matlib_zeros matlib_imported z s of Inl e \<Rightarrow> Inl e | Inr M \<Rightarrow> Inr (Single M))"
| "initial_result matlib_imported z (Sequence ts) s =
     (if length ts > 1 then Inr (Stacked (replicate (length ts) (zeros z (fst s) (snd s))))
      else (case matlib_zeros matlib_imported z s of Inl e \<Rightarrow> Inl e | Inr M \<Rightarrow> Inr (Single M)))"

text \<open>
  The inner function \<^verbatim>\<open>matrix_callable(t)\<close>: the call of the interpolating callable,
  the allocation, then the loop. \<open>z\<close> is the number zero of the value type.
\<close>

definition matrix_callable ::
  "bool \<Rightarrow> ('t time_arg \<Rightarrow> error + 'v ndarray) \<Rightarrow> 's list \<Rightarrow> 's matrix \<Rightarrow> 'v \<Rightarrow> 't time_arg
    \<Rightarrow> error + 'v matrix_result" where
  "matrix_callable matlib_imported vector_callable unraveled raveled z t =
     (case vector_callable t of
        Inl e \<Rightarrow> Inl e
      | Inr vector_result \<Rightarrow>
          (case initial_result matlib_imported z t (shape raveled) of
             Inl e \<Rightarrow> Inl e
           | Inr matrix_result \<Rightarrow>
               (case nditer raveled of
                  Inl e \<Rightarrow> Inl e
                | Inr cells \<Rightarrow> fill unraveled raveled vector_result cells matrix_result)))"

text \<open>
  \<open>unraveled\<close> is a list of symbols, or a sympy matrix that is flattened first.
\<close>

datatype 's unraveled = AsList "'s list" | AsMatrix "'s matrix"

fun unraveled_list :: "'s unraveled \<Rightarrow> 's list" where
  "unraveled_list (AsList xs) = xs"
| "unraveled_list (AsMatrix M) = flatten (tolist M)"

text \<open>
  The outer function. \<open>callable_from_trajectory\<close> is the collaborator of
  \<^verbatim>\<open>simupy.utils\<close>, a parameter here; \<open>x\<close> is the \<open>m \<times> n\<close> array of samples
  (\<^verbatim>\<open>xn, xm = x.shape\<close> unpacks its two dimensions and uses neither).
\<close>

definition matrix_callable_from_vector_trajectory ::
  "bool \<Rightarrow> ('t list \<Rightarrow> 'v matrix \<Rightarrow> 't time_arg \<Rightarrow> error + 'v ndarray) \<Rightarrow> 't list
    \<Rightarrow> 'v matrix \<Rightarrow> 's unraveled \<Rightarrow> 's matrix \<Rightarrow> 'v \<Rightarrow> 't time_arg
    \<Rightarrow> error + 'v matrix_result" where
  "matrix_callable_from_vector_trajectory matlib_imported callable_from_trajectory tt x
       unraveled raveled z =
     (let vector_callable = callable_from_trajectory tt x;
          unraveled' = unraveled_list unraveled
      in matrix_callable matlib_imported vector_callable unraveled' raveled z)"

section \<open>\<open>system_from_matrix_DE\<close>\<close>

text \<open>
  Modelled from the spec: the class \<^verbatim>\<open>DynamicalSystem\<close> of \<^verbatim>\<open>simupy.systems\<close> is not
  among the source files. The spec has its constructor take the derivative-expression
  vector, the state-variable vector, the input vector and the constants mapping, and
  treats the object as an opaque value; the record keeps the four arguments.
\<close>

record dynamical_system =
  state_equation :: "expr matrix"
  state :: "expr matrix"
  input :: "expr matrix"
  constants_values :: "(expr \<times> expr) list"

definition DynamicalSystem ::
  "expr matrix \<Rightarrow> expr matrix \<Rightarrow> expr matrix \<Rightarrow> (expr \<times> expr) list \<Rightarrow> dynamical_system" where
  "DynamicalSystem vec_DE vec_var mat_input constants =
     \<lparr>state_equation = vec_DE, state = vec_var, input = mat_input,
      constants_values = constants\<rparr>"

text \<open>\<^verbatim>\<open>sp.Matrix(xs)\<close> of a list of expressions: a column; of the empty list: \<open>0 \<times> 0\<close>.\<close>

definition Matrix_of_list :: "expr list \<Rightarrow> expr matrix" where
  "Matrix_of_list xs = \<lparr>nrows = length xs, ncols = (if xs = [] then 0 else 1), flat = xs\<rparr>"

text \<open>
  \<^verbatim>\<open>vec_DE[idx] = d\<close>: assignment by the flat index. \<open>idx\<close> is a position of
  \<open>vec_var\<close>, and \<open>vec_DE\<close> has as many entries, so it is in range.
\<close>

definition setitem_flat :: "'a matrix \<Rightarrow> nat \<Rightarrow> 'a \<Rightarrow> 'a matrix" where
  "setitem_flat M idx d = M\<lparr>flat := (flat M)[idx := d]\<rparr>"

text \<open>The loop over the cells of \<open>mat_DE\<close>; the first exception ends it.\<close>

fun place :: "expr list \<Rightarrow> expr matrix \<Rightarrow> expr matrix \<Rightarrow> (nat \<times> nat) list \<Rightarrow> expr matrix
    \<Rightarrow> error + expr matrix" where
  "place vec_var mat_DE mat_var [] vec_DE = Inr vec_DE"
| "place vec_var mat_DE mat_var ((i, j) # cells) vec_DE =
     (case getitem2 mat_var i j of
        Inl e \<Rightarrow> Inl e
      | Inr s \<Rightarrow>
          (case index_of vec_var s of
             None \<Rightarrow> Inl NotInList
           | Some idx \<Rightarrow>
               (case getitem2 mat_DE i j of
                  Inl e \<Rightarrow> Inl e
                | Inr d \<Rightarrow> place vec_var mat_DE mat_var cells (setitem_flat vec_DE idx d))))"

text \<open>
  \<^verbatim>\<open>list(set(xs))\<close> lists the distinct elements of \<open>xs\<close> in the order in which the
  set iterates, which Python does not fix. The order is the parameter \<open>list_of_set\<close>;
  \<open>set_iteration\<close> says what every such order satisfies.
\<close>

definition set_iteration :: "('a list \<Rightarrow> 'a list) \<Rightarrow> bool" where
  "set_iteration list_of_set = (\<forall>xs. distinct (list_of_set xs) \<and> set (list_of_set xs) = set xs)"

definition system_from_matrix_DE ::
  "(expr list \<Rightarrow> expr list) \<Rightarrow> expr matrix \<Rightarrow> expr matrix \<Rightarrow> expr matrix
    \<Rightarrow> (expr \<times> expr) list \<Rightarrow> error + dynamical_system" where
  "system_from_matrix_DE list_of_set mat_DE mat_var mat_input constants =
     (let vec_var = list_of_set (flatten (tolist mat_var));
          vec_DE = zeros (Integer 0) (length vec_var) 1
      in case nditer mat_DE of
           Inl e \<Rightarrow> Inl e
         | Inr cells \<Rightarrow>
             (case place vec_var mat_DE mat_var cells vec_DE of
                Inl e \<Rightarrow> Inl e
              | Inr vec_DE' \<Rightarrow>
                  Inr (DynamicalSystem vec_DE' (Matrix_of_list vec_var) mat_input constants)))"

section \<open>\<open>construct_explicit_matrix\<close>\<close>









text \<open>A matrix given by its dimensions and a function of the cell, as sympy builds it.\<close>

definition new_matrix :: "nat \<Rightarrow> nat \<Rightarrow> (nat \<Rightarrow> nat \<Rightarrow> 'a) \<Rightarrow> 'a matrix" where
  "new_matrix r c entry =
     \<lparr>nrows = r, ncols = c, flat = concat (map (\<lambda>i. map (\<lambda>j. entry i j) [0..<c]) [0..<r])\<rparr>"






section \<open>\<open>matrix_subs\<close>\<close>

text \<open>
  The Python values that the arguments of \<open>matrix_subs\<close> are made of: a matrix, an entry
  of a matrix, a tuple, a list, and a dict from symbolic matrices to value matrices.
\<close>

datatype pyobj =
    Mat "expr matrix"
  | Entry expr
  | Tuple "pyobj list"
  | PyList "pyobj list"
  | Dict "(expr matrix \<times> expr matrix) list"

text \<open>\<^verbatim>\<open>isinstance(obj, (list, tuple, dict))\<close>\<close>

fun is_list_tuple_dict :: "pyobj \<Rightarrow> bool" where
  "is_list_tuple_dict (Tuple xs) = True"
| "is_list_tuple_dict (PyList xs) = True"
| "is_list_tuple_dict (Dict d) = True"
| "is_list_tuple_dict (Mat M) = False"
| "is_list_tuple_dict (Entry e) = False"

text \<open>
  \<^verbatim>\<open>obj[k]\<close> with one integer \<open>k\<close>: a position of a tuple or list, a flat position of
  a matrix; on a dict it is the lookup of the key \<open>k\<close>, and the keys are matrices.
\<close>

fun subscript :: "pyobj \<Rightarrow> nat \<Rightarrow> error + pyobj" where
  "subscript (Tuple xs) k = (if k < length xs then Inr (xs ! k) else Inl IndexError)"
| "subscript (PyList xs) k = (if k < length xs then Inr (xs ! k) else Inl IndexError)"
| "subscript (Dict d) k = Inl KeyError"
| "subscript (Mat M) k = (if k < length (flat M) then Inr (Entry (flat M ! k)) else Inl IndexError)"
| "subscript (Entry e) k = Inl TypeError"

text \<open>\<^verbatim>\<open>obj.shape\<close>\<close>

fun shape_of :: "pyobj \<Rightarrow> error + nat \<times> nat" where
  "shape_of (Mat M) = Inr (shape M)"
| "shape_of obj = Inl AttributeError"

text \<open>\<^verbatim>\<open>obj[i, j]\<close>\<close>

fun subscript2 :: "pyobj \<Rightarrow> nat \<Rightarrow> nat \<Rightarrow> error + expr" where
  "subscript2 (Mat M) i j = getitem2 M i j"
| "subscript2 (Dict d) i j = Inl KeyError"
| "subscript2 obj i j = Inl TypeError"

text \<open>
  The two inner iterations of the generator for one \<open>sub\<close>: for each cell, the filter
  \<^verbatim>\<open>sub[0][i, j] != 0\<close>, then the pair \<^verbatim>\<open>(sub[0][i, j], sub[1][i, j])\<close>.
\<close>

fun emit :: "pyobj \<Rightarrow> (nat \<times> nat) list \<Rightarrow> error + (expr \<times> expr) list" where
  "emit sub [] = Inr []"
| "emit sub ((i, j) # cells) =
     (case subscript sub 0 of
        Inl e \<Rightarrow> Inl e
      | Inr a \<Rightarrow>
          (case subscript2 a i j of
             Inl e \<Rightarrow> Inl e
           | Inr s \<Rightarrow>
               if s \<noteq> Integer 0 then
                 (case subscript sub 1 of
                    Inl e \<Rightarrow> Inl e
                  | Inr b \<Rightarrow>
                      (case subscript2 b i j of
                         Inl e \<Rightarrow> Inl e
                       | Inr v \<Rightarrow>
                           (case emit sub cells of
                              Inl e \<Rightarrow> Inl e
                            | Inr ps \<Rightarrow> Inr ((s, v) # ps))))
               else emit sub cells))"

text \<open>
  \<^verbatim>\<open>for i in range(sub[0].shape[0]) for j in range(sub[0].shape[1])\<close>: the cells of
  \<^verbatim>\<open>sub[0]\<close> in row-major order.
\<close>

definition cells_of :: "nat \<times> nat \<Rightarrow> (nat \<times> nat) list" where
  "cells_of s = concat (map (\<lambda>i. map (\<lambda>j. (i, j)) [0..<snd s]) [0..<fst s])"

definition pairs_of :: "pyobj \<Rightarrow> error + (expr \<times> expr) list" where
  "pairs_of sub =
     (case subscript sub 0 of
        Inl e \<Rightarrow> Inl e
      | Inr a \<Rightarrow> (case shape_of a of Inl e \<Rightarrow> Inl e | Inr s \<Rightarrow> emit sub (cells_of s)))"

text \<open>The outer loop \<^verbatim>\<open>for sub in subs\<close>.\<close>

fun collect :: "pyobj list \<Rightarrow> error + (expr \<times> expr) list" where
  "collect [] = Inr []"
| "collect (sub # subs) =
     (case pairs_of sub of
        Inl e \<Rightarrow> Inl e
      | Inr ps \<Rightarrow> (case collect subs of Inl e \<Rightarrow> Inl e | Inr qs \<Rightarrow> Inr (ps @ qs)))"

text \<open>
  What \<open>matrix_subs\<close> returns: the tuple of pairs, the dict of a dict comprehension (a
  later pair with the same key replaces an earlier one), or \<^verbatim>\<open>None\<close> when neither
  branch is taken.
\<close>

datatype subs_result =
    PairTuple "(expr \<times> expr) list"
  | Mapping "expr \<rightharpoonup> expr"
  | NoneResult

definition dict_of :: "(expr \<times> expr) list \<Rightarrow> expr \<rightharpoonup> expr" where
  "dict_of ps = fold (\<lambda>(k, v) d. d(k \<mapsto> v)) ps Map.empty"

text \<open>\<^verbatim>\<open>subs.items()\<close>: the pairs (key, value) as tuples.\<close>

definition items :: "(expr matrix \<times> expr matrix) list \<Rightarrow> pyobj list" where
  "items d = map (\<lambda>(k, v). Tuple [Mat k, Mat v]) d"

text \<open>
  \<^verbatim>\<open>def matrix_subs(*subs)\<close>: \<open>args\<close> are the positional arguments, so \<open>subs\<close> starts
  as the tuple of them.
\<close>

definition matrix_subs :: "pyobj list \<Rightarrow> error + subs_result" where
  "matrix_subs args =
     (let subs = (if length args = 2 \<and> \<not> is_list_tuple_dict (args ! 0)
                  then PyList [Tuple args] else Tuple args)
      in case subs of
           Tuple xs \<Rightarrow> (case collect xs of Inl e \<Rightarrow> Inl e | Inr ps \<Rightarrow> Inr (PairTuple ps))
         | PyList xs \<Rightarrow> (case collect xs of Inl e \<Rightarrow> Inl e | Inr ps \<Rightarrow> Inr (PairTuple ps))
         | Dict d \<Rightarrow>
             (case collect (items d) of Inl e \<Rightarrow> Inl e | Inr ps \<Rightarrow> Inr (Mapping (dict_of ps)))
         | _ \<Rightarrow> Inr NoneResult)"

text \<open>
  \<^verbatim>\<open>expr.subs(pairs)\<close> of sympy with a sequence of pairs: the pairs are applied one
  after the other, each replacing every subexpression equal to its first component.
\<close>

fun subs1 :: "expr \<Rightarrow> expr \<Rightarrow> expr \<Rightarrow> expr" where
  "subs1 old new e =
     (if e = old then new
      else (case e of Compound f args \<Rightarrow> Compound f (map (subs1 old new) args) | _ \<Rightarrow> e))"

declare subs1.simps [simp del]

definition subs :: "(expr \<times> expr) list \<Rightarrow> expr \<Rightarrow> expr" where
  "subs ps e = fold (\<lambda>(old, new) e'. subs1 old new e') ps e"

section \<open>\<open>block_matrix\<close>\<close>

text \<open>\<^verbatim>\<open>M[i, j]\<close> on a cell in range.\<close>

definition entry_at :: "'a matrix \<Rightarrow> nat \<Rightarrow> nat \<Rightarrow> 'a" where
  "entry_at M i j = flat M ! (i * ncols M + j)"

text \<open>
  sympy's \<^verbatim>\<open>row_join\<close> and \<^verbatim>\<open>col_join\<close>: a matrix with no column (no row) is first
  given the other's number of rows (columns); then the two numbers must agree.
\<close>

definition eval_row_join :: "'a matrix \<Rightarrow> 'a matrix \<Rightarrow> 'a matrix" where
  "eval_row_join A B =
     new_matrix (nrows A) (ncols A + ncols B)
       (\<lambda>i j. if j < ncols A then entry_at A i j else entry_at B i (j - ncols A))"

definition row_join :: "'a matrix \<Rightarrow> 'a matrix \<Rightarrow> error + 'a matrix" where
  "row_join A B =
     (if ncols A = 0 \<and> nrows A \<noteq> nrows B
      then Inr (eval_row_join \<lparr>nrows = nrows B, ncols = 0, flat = []\<rparr> B)
      else if nrows A \<noteq> nrows B then Inl ShapeError
      else Inr (eval_row_join A B))"

definition eval_col_join :: "'a matrix \<Rightarrow> 'a matrix \<Rightarrow> 'a matrix" where
  "eval_col_join A B =
     new_matrix (nrows A + nrows B) (ncols A)
       (\<lambda>i j. if i < nrows A then entry_at A i j else entry_at B (i - nrows A) j)"

definition col_join :: "'a matrix \<Rightarrow> 'a matrix \<Rightarrow> error + 'a matrix" where
  "col_join A B =
     (if nrows A = 0 \<and> ncols A \<noteq> ncols B
      then Inr (eval_col_join \<lparr>nrows = 0, ncols = ncols B, flat = []\<rparr> B)
      else if ncols A \<noteq> ncols B then Inl ShapeError
      else Inr (eval_col_join A B))"

text \<open>
  \<^verbatim>\<open>sp.Matrix.row_join(*mats)\<close> and \<^verbatim>\<open>sp.Matrix.col_join(*mats)\<close>: the method takes
  \<^verbatim>\<open>self\<close> and one other matrix, so the call needs exactly two arguments.
\<close>

fun call_row_join :: "'a matrix list \<Rightarrow> error + 'a matrix" where
  "call_row_join [A, B] = row_join A B"
| "call_row_join mats = Inl TypeError"

fun call_col_join :: "'a matrix list \<Rightarrow> error + 'a matrix" where
  "call_col_join [A, B] = col_join A B"
| "call_col_join mats = Inl TypeError"

text \<open>The generator over the rows of \<open>blocks\<close>, collected before \<^verbatim>\<open>col_join\<close> is called.\<close>

fun join_rows :: "'a matrix list list \<Rightarrow> error + 'a matrix list" where
  "join_rows [] = Inr []"
| "join_rows (row # rows) =
     (case call_row_join row of
        Inl e \<Rightarrow> Inl e
      | Inr R \<Rightarrow> (case join_rows rows of Inl e \<Rightarrow> Inl e | Inr Rs \<Rightarrow> Inr (R # Rs)))"

definition block_matrix :: "'a matrix list list \<Rightarrow> error + 'a matrix" where
  "block_matrix blocks =
     (case join_rows blocks of Inl e \<Rightarrow> Inl e | Inr rows \<Rightarrow> call_col_join rows)"

section \<open>Definitions used to state the properties\<close>

text \<open>A function applied to every entry of a matrix.\<close>

definition matrix_map :: "('s \<Rightarrow> 'v) \<Rightarrow> 's matrix \<Rightarrow> 'v matrix" where
  "matrix_map f M = \<lparr>nrows = nrows M, ncols = ncols M, flat = map f (flat M)\<rparr>"


text \<open>
  The form of \<open>vector_result\<close> that the indexing of the loop body expects for \<open>n\<close>
  symbols: for one time (or a sequence of at most one), a vector with an entry for each
  symbol; for \<open>k > 1\<close> times, an entry for each symbol that is the series of its \<open>k\<close>
  values, since \<^verbatim>\<open>vector_result[idx]\<close> indexes the first axis.
\<close>

definition well_shaped :: "'t time_arg \<Rightarrow> nat \<Rightarrow> 'v ndarray \<Rightarrow> bool" where
  "well_shaped t n vector_result =
     (case vector_result of
        Arr0 v \<Rightarrow> False
      | Arr1 vs \<Rightarrow> \<not> as_array t \<and> n \<le> length vs
      | Arr2 rows \<Rightarrow>
          (case t of
             Scalar t0 \<Rightarrow> False
           | Sequence ts \<Rightarrow> 1 < length ts \<and> n \<le> length rows \<and> list_all (\<lambda>row. length row = length ts) rows))"


text \<open>
  The filter of \<open>matrix_subs\<close> on a pair, and the two kinds of atoms: a symbol (an
  unknown) and a number.
\<close>

definition nonzero :: "expr \<times> expr \<Rightarrow> bool" where
  "nonzero p = (fst p \<noteq> Integer 0)"

fun is_symbol :: "expr \<Rightarrow> bool" where
  "is_symbol (Symbol s kw) = True"
| "is_symbol (Dynamic s kw) = True"
| "is_symbol e = False"

fun is_number :: "expr \<Rightarrow> bool" where
  "is_number (Integer n) = True"
| "is_number e = False"




section \<open>Lists, cells and matrix updates\<close>

lemma index_of_None_iff: "index_of xs x = None \<longleftrightarrow> x \<notin> set xs"
  by (induction xs) (auto split: option.splits)

lemma index_of_Some: "index_of xs x = Some k \<Longrightarrow> k < length xs \<and> xs ! k = x"
  by (induction xs arbitrary: k) (auto split: option.splits if_splits)

lemma index_of_first: "index_of xs x = Some k \<Longrightarrow> j < k \<Longrightarrow> xs ! j \<noteq> x"
proof (induction xs arbitrary: k j)
  case Nil
  then show ?case by simp
next
  case (Cons y ys)
  show ?case
  proof (cases "y = x")
    case True
    with Cons.prems show ?thesis by simp
  next
    case False
    with Cons.prems obtain k' where k': "index_of ys x = Some k'" "k = Suc k'"
      by (auto split: option.splits)
    show ?thesis
    proof (cases j)
      case 0
      with False show ?thesis by simp
    next
      case (Suc j')
      with Cons.prems(2) k' have "j' < k'" by simp
      from Cons.IH[OF k'(1) this] Suc show ?thesis by simp
    qed
  qed
qed

lemma index_of_mem: "x \<in> set xs \<Longrightarrow> \<exists>k. index_of xs x = Some k"
  using index_of_None_iff[of xs x] by (cases "index_of xs x") auto

lemma fold_update_length:
  "length (fold (\<lambda>c ys. ys[pos c := g c]) cells xs) = length xs"
  by (induction cells arbitrary: xs) auto

lemma fold_update_nth:
  "k < length xs \<Longrightarrow>
   fold (\<lambda>c ys. ys[pos c := g (pos c)]) cells xs ! k =
     (if k \<in> pos ` set cells then g k else xs ! k)"
proof (induction cells arbitrary: xs)
  case Nil
  then show ?case by simp
next
  case (Cons c cells)
  have "k < length (xs[pos c := g (pos c)])" using Cons.prems by simp
  from Cons.IH[OF this] Cons.prems show ?case
    by (auto simp: nth_list_update)
qed

lemma nditer_cells:
  "nditer M = Inr cells \<Longrightarrow>
   set cells = {0..<nrows M} \<times> {0..<ncols M} \<and> 0 < nrows M \<and> 0 < ncols M"
  by (fastforce simp: nditer_def split: if_splits)

lemma cell_position_image:
  "(\<lambda>(i, j). i * q + j) ` ({0..<p} \<times> {0..<q}) = {0..<p * (q::nat)}"
proof (intro set_eqI iffI)
  fix k assume "k \<in> (\<lambda>(i, j). i * q + j) ` ({0..<p} \<times> {0..<q})"
  then obtain i j where ij: "i < p" "j < q" "k = i * q + j" by auto
  have "i * q + j < Suc i * q" using ij by simp
  also have "\<dots> \<le> p * q" using ij(1) by (intro mult_le_mono1) simp
  finally show "k \<in> {0..<p * q}" using ij by simp
next
  fix k assume k: "k \<in> {0..<p * q}"
  then have q: "0 < q" by (cases q) auto
  have "k div q < p" using k q by (simp add: less_mult_imp_div_less)
  moreover have "k mod q < q" using q by simp
  moreover have "k = (k div q) * q + k mod q" by simp
  ultimately show "k \<in> (\<lambda>(i, j). i * q + j) ` ({0..<p} \<times> {0..<q})"
    by (intro image_eqI[where x = "(k div q, k mod q)"]) auto
qed

lemma cell_in_range:
  "i < p \<Longrightarrow> j < q \<Longrightarrow> i * q + j < p * (q::nat)"
proof -
  assume ij: "i < p" "j < q"
  have "i * q + j < Suc i * q" using ij by simp
  also have "\<dots> \<le> p * q" using ij(1) by (intro mult_le_mono1) simp
  finally show ?thesis .
qed

lemma getitem2_in_range:
  "i < nrows M \<Longrightarrow> j < ncols M \<Longrightarrow> getitem2 M i j = Inr (flat M ! (i * ncols M + j))"
  by (simp add: getitem2_def)

lemma fill_Single_fold:
  assumes "\<forall>(i, j) \<in> set cells. i < nrows r \<and> j < ncols r \<and>
             (\<exists>idx. index_of u (flat r ! (i * ncols r + j)) = Some idx \<and> idx < length vs)"
  shows "fill u r (Arr1 vs) cells (Single M) =
           Inr (Single (fold (\<lambda>(i, j) M. setitem2 M i j
                  (vs ! the (index_of u (flat r ! (i * ncols r + j))))) cells M))"
  using assms
proof (induction cells arbitrary: M)
  case Nil
  then show ?case by simp
next
  case (Cons c cells)
  obtain i j where c: "c = (i, j)" by (cases c)
  from Cons.prems c obtain idx where
    ij: "i < nrows r" "j < ncols r" and
    idx: "index_of u (flat r ! (i * ncols r + j)) = Some idx" "idx < length vs"
    by auto
  have rest: "\<forall>(i, j) \<in> set cells. i < nrows r \<and> j < ncols r \<and>
             (\<exists>idx. index_of u (flat r ! (i * ncols r + j)) = Some idx \<and> idx < length vs)"
    using Cons.prems by simp
  show ?case
    using ij idx Cons.IH[OF rest] by (simp add: c getitem2_in_range)
qed

lemma fold_setitem2_dims:
  "nrows (fold (\<lambda>(i, j) N. setitem2 N i j (f i j)) cells M) = nrows M \<and>
   ncols (fold (\<lambda>(i, j) N. setitem2 N i j (f i j)) cells M) = ncols M"
  by (induction cells arbitrary: M) (auto simp: setitem2_def)

lemma fold_setitem2_flat:
  "ncols M = q \<Longrightarrow>
   flat (fold (\<lambda>(i, j) N. setitem2 N i j (g (i * q + j))) cells M) =
     fold (\<lambda>c ys. ys[(\<lambda>(i, j). i * q + j) c := g ((\<lambda>(i, j). i * q + j) c)]) cells (flat M)"
proof (induction cells arbitrary: M)
  case Nil
  then show ?case by simp
next
  case (Cons c cells)
  obtain i j where c: "c = (i, j)" by (cases c)
  have n: "ncols (setitem2 M i j (g (i * q + j))) = q"
    using Cons.prems by (simp add: setitem2_def)
  show ?case
    using Cons.IH[OF n] Cons.prems
    by (simp add: c) (simp add: setitem2_def)
qed

lemma fold_setitem2_all_cells:
  assumes cells: "set cells = {0..<nrows M} \<times> {0..<ncols M}"
    and len: "length (flat M) = nrows M * ncols M"
    and q: "q = ncols M"
  shows "fold (\<lambda>(i, j) N. setitem2 N i j (g (i * q + j))) cells M =
           \<lparr>nrows = nrows M, ncols = ncols M, flat = map g [0..<nrows M * ncols M]\<rparr>"
    (is "?F = ?R")
proof -
  let ?pos = "\<lambda>(i, j). i * q + j"
  have dims: "nrows ?F = nrows M" "ncols ?F = ncols M"
    using fold_setitem2_dims[of "\<lambda>i j. g (i * q + j)" cells M] by simp_all
  have fl: "flat ?F = fold (\<lambda>c ys. ys[?pos c := g (?pos c)]) cells (flat M)"
    using q by (intro fold_setitem2_flat) simp
  have img: "?pos ` set cells = {0..<nrows M * ncols M}"
    unfolding cells q by (rule cell_position_image)
  have "flat ?F = map g [0..<nrows M * ncols M]"
  proof (rule nth_equalityI)
    show "length (flat ?F) = length (map g [0..<nrows M * ncols M])"
      by (simp add: fl fold_update_length len)
  next
    fix k assume "k < length (flat ?F)"
    then have k: "k < nrows M * ncols M" by (simp add: fl fold_update_length len)
    then have "k < length (flat M)" by (simp add: len)
    from fold_update_nth[OF this, of ?pos g cells] img k
    show "flat ?F ! k = map g [0..<nrows M * ncols M] ! k"
      by (simp add: fl)
  qed
  with dims show ?thesis by simp
qed

lemma initial_result_single:
  "\<not> as_array t \<Longrightarrow> initial_result True z t (p, q) = Inr (Single (zeros z p q))"
  by (cases t) (auto simp: matlib_zeros_def)

lemma initial_result_raises:
  "\<not> as_array t \<Longrightarrow> initial_result False z t s = Inl AttributeError"
  by (cases t) (auto simp: matlib_zeros_def)

lemma initial_result_not_NotInList: "initial_result b z t s \<noteq> Inl NotInList"
  by (cases t) (auto simp: matlib_zeros_def)

lemma map_nth_flat: "map (\<lambda>k. f (xs ! k)) [0..<length xs] = map f xs"
  by (rule nth_equalityI) auto

lemma flat_nth_mem:
  "wf_matrix r \<Longrightarrow> i < nrows r \<Longrightarrow> j < ncols r \<Longrightarrow> flat r ! (i * ncols r + j) \<in> set (flat r)"
  by (simp add: wf_matrix_def cell_in_range)

lemma fill_single_closed:
  assumes wf: "wf_matrix r"
    and cells: "nditer r = Inr cells"
    and present: "\<forall>s \<in> set (flat r). \<exists>idx. index_of u s = Some idx \<and> idx < length vs"
  shows "fill u r (Arr1 vs) cells (Single (zeros z (nrows r) (ncols r))) =
           Inr (Single (matrix_map (\<lambda>s. vs ! the (index_of u s)) r))"
proof -
  let ?g = "\<lambda>k. vs ! the (index_of u (flat r ! k))"
  let ?Z = "zeros z (nrows r) (ncols r)"
  from nditer_cells[OF cells] have sc: "set cells = {0..<nrows r} \<times> {0..<ncols r}" by simp
  have pre: "\<forall>(i, j) \<in> set cells. i < nrows r \<and> j < ncols r \<and>
             (\<exists>idx. index_of u (flat r ! (i * ncols r + j)) = Some idx \<and> idx < length vs)"
    using sc present flat_nth_mem[OF wf] by auto
  have Z: "nrows ?Z = nrows r" "ncols ?Z = ncols r" "length (flat ?Z) = nrows ?Z * ncols ?Z"
    by (simp_all add: zeros_def)
  have "fold (\<lambda>(i, j) N. setitem2 N i j (?g (i * ncols r + j))) cells ?Z =
          \<lparr>nrows = nrows ?Z, ncols = ncols ?Z, flat = map ?g [0..<nrows ?Z * ncols ?Z]\<rparr>"
    by (rule fold_setitem2_all_cells) (simp_all add: Z sc)
  also have "\<dots> = matrix_map (\<lambda>s. vs ! the (index_of u s)) r"
    using wf map_nth_flat[of "\<lambda>s. vs ! the (index_of u s)" "flat r"]
    by (simp add: matrix_map_def Z wf_matrix_def)
  finally show ?thesis
    using fill_Single_fold[OF pre, of ?Z] by simp
qed

lemma assign_Stacked_row:
  "length row = length Ms \<Longrightarrow>
   assign (Stacked Ms) i j (Arr1 row) =
     Inr (Stacked (map (\<lambda>s. setitem2 (Ms ! s) i j (row ! s)) [0..<length Ms]))"
  by (auto intro!: nth_equalityI)

lemma fill_Stacked_fold:
  assumes "\<forall>(i, j) \<in> set cells. i < nrows r \<and> j < ncols r \<and>
             (\<exists>idx. index_of u (flat r ! (i * ncols r + j)) = Some idx \<and> idx < length rows \<and>
                length (rows ! idx) = length Ms)"
  shows "fill u r (Arr2 rows) cells (Stacked Ms) =
           Inr (Stacked (map (\<lambda>s. fold (\<lambda>(i, j) N. setitem2 N i j
                  (rows ! the (index_of u (flat r ! (i * ncols r + j))) ! s)) cells (Ms ! s))
                  [0..<length Ms]))"
  using assms
proof (induction cells arbitrary: Ms)
  case Nil
  show ?case by (simp add: map_nth)
next
  case (Cons c cells)
  obtain i j where c: "c = (i, j)" by (cases c)
  from Cons.prems c obtain idx where
    ij: "i < nrows r" "j < ncols r" and
    idx: "index_of u (flat r ! (i * ncols r + j)) = Some idx" "idx < length rows"
      "length (rows ! idx) = length Ms"
    by auto
  let ?Ms' = "map (\<lambda>s. setitem2 (Ms ! s) i j (rows ! idx ! s)) [0..<length Ms]"
  have len: "length ?Ms' = length Ms" by simp
  have rest: "\<forall>(i, j) \<in> set cells. i < nrows r \<and> j < ncols r \<and>
             (\<exists>idx. index_of u (flat r ! (i * ncols r + j)) = Some idx \<and> idx < length rows \<and>
                length (rows ! idx) = length ?Ms')"
    using Cons.prems by simp
  have step: "fill u r (Arr2 rows) (c # cells) (Stacked Ms) =
          fill u r (Arr2 rows) cells (Stacked ?Ms')"
    using ij idx by (simp add: c getitem2_in_range assign_Stacked_row del: assign.simps)
  show ?case
    unfolding step Cons.IH[OF rest]
    using idx by (simp add: c)
qed

lemma fill_stacked_closed:
  assumes wf: "wf_matrix r"
    and cells: "nditer r = Inr cells"
    and present: "\<forall>s \<in> set (flat r). \<exists>idx. index_of u s = Some idx \<and> idx < length rows \<and>
        length (rows ! idx) = k"
  shows "fill u r (Arr2 rows) cells (Stacked (replicate k (zeros z (nrows r) (ncols r)))) =
           Inr (Stacked (map (\<lambda>s. matrix_map (\<lambda>sym. rows ! the (index_of u sym) ! s) r) [0..<k]))"
proof -
  let ?Z = "zeros z (nrows r) (ncols r)"
  let ?Ms = "replicate k ?Z"
  from nditer_cells[OF cells] have sc: "set cells = {0..<nrows r} \<times> {0..<ncols r}" by simp
  have pre: "\<forall>(i, j) \<in> set cells. i < nrows r \<and> j < ncols r \<and>
             (\<exists>idx. index_of u (flat r ! (i * ncols r + j)) = Some idx \<and> idx < length rows \<and>
                length (rows ! idx) = length ?Ms)"
    using sc present flat_nth_mem[OF wf] by auto
  have Z: "nrows ?Z = nrows r" "ncols ?Z = ncols r" "length (flat ?Z) = nrows ?Z * ncols ?Z"
    by (simp_all add: zeros_def)
  have one: "fold (\<lambda>(i, j) N. setitem2 N i j
                  (rows ! the (index_of u (flat r ! (i * ncols r + j))) ! s)) cells ?Z =
             matrix_map (\<lambda>sym. rows ! the (index_of u sym) ! s) r" for s
  proof -
    let ?g = "\<lambda>k. rows ! the (index_of u (flat r ! k)) ! s"
    have "fold (\<lambda>(i, j) N. setitem2 N i j (?g (i * ncols r + j))) cells ?Z =
          \<lparr>nrows = nrows ?Z, ncols = ncols ?Z, flat = map ?g [0..<nrows ?Z * ncols ?Z]\<rparr>"
      by (rule fold_setitem2_all_cells) (simp_all add: Z sc)
    also have "\<dots> = matrix_map (\<lambda>sym. rows ! the (index_of u sym) ! s) r"
      using wf map_nth_flat[of "\<lambda>sym. rows ! the (index_of u sym) ! s" "flat r"]
      by (simp add: matrix_map_def Z wf_matrix_def)
    finally show ?thesis .
  qed
  show ?thesis
    unfolding fill_Stacked_fold[OF pre]
    by (simp add: one)
qed

lemma take_rows: "concat (map (\<lambda>i. take q (drop (i * q) xs)) [0..<p]) = take (p * q) xs"
proof (induction p)
  case 0
  then show ?case by simp
next
  case (Suc p)
  have "take (Suc p * q) xs = take (p * q + q) xs" by (simp add: add.commute)
  also have "\<dots> = take (p * q) xs @ take q (drop (p * q) xs)" by (rule take_add)
  finally show ?case using Suc by simp
qed

lemma flatten_tolist: "wf_matrix M \<Longrightarrow> flatten (tolist M) = flat M"
  by (simp add: flatten_def tolist_def take_rows wf_matrix_def)

lemma cells_in_range:
  "nditer r = Inr cells \<Longrightarrow> \<forall>(i, j) \<in> set cells. i < nrows r \<and> j < ncols r"
  using nditer_cells[of r cells] by auto

lemma entry_has_cell:
  assumes wf: "wf_matrix r" and cells: "nditer r = Inr cells" and s: "s \<in> set (flat r)"
  shows "\<exists>(i, j) \<in> set cells. flat r ! (i * ncols r + j) = s"
proof -
  from s obtain k where k: "k < length (flat r)" "flat r ! k = s"
    by (auto simp: in_set_conv_nth)
  then have "k \<in> {0..<nrows r * ncols r}" using wf by (simp add: wf_matrix_def)
  then have "k \<in> (\<lambda>(i, j). i * ncols r + j) ` ({0..<nrows r} \<times> {0..<ncols r})"
    by (simp only: cell_position_image)
  then obtain i j where ij: "i < nrows r" "j < ncols r" "k = i * ncols r + j" by auto
  then have "(i, j) \<in> set cells" using nditer_cells[OF cells] by simp
  moreover have "flat r ! (i * ncols r + j) = s" using k ij by simp
  ultimately show ?thesis by blast
qed

lemma index_of_Some_mem: "index_of xs x = Some k \<Longrightarrow> x \<in> set xs"
  using index_of_None_iff[of xs x] by auto

lemma fill_fails_absent:
  assumes "\<forall>(i, j) \<in> set cells. i < nrows r \<and> j < ncols r"
    and "\<exists>(i, j) \<in> set cells. flat r ! (i * ncols r + j) \<notin> set u"
  shows "\<exists>e. fill u r vr cells res = Inl e"
  using assms
proof (induction cells arbitrary: res)
  case Nil
  then show ?case by simp
next
  case (Cons c cells)
  obtain i j where c: "c = (i, j)" by (cases c)
  from Cons.prems(1) c have ij: "i < nrows r" "j < ncols r" by auto
  show ?case
  proof (cases "flat r ! (i * ncols r + j) \<in> set u")
    case False
    then have "index_of u (flat r ! (i * ncols r + j)) = None"
      by (simp add: index_of_None_iff)
    then show ?thesis using ij by (simp add: c getitem2_in_range)
  next
    case True
    with Cons.prems c have rest: "\<forall>(i, j) \<in> set cells. i < nrows r \<and> j < ncols r"
      "\<exists>(i, j) \<in> set cells. flat r ! (i * ncols r + j) \<notin> set u"
      by auto
    from Cons.IH[OF rest] show ?thesis
      using ij by (auto simp: c getitem2_in_range split: option.splits sum.splits)
  qed
qed

lemma fill_present_no_NotInList:
  assumes "\<forall>(i, j) \<in> set cells. i < nrows r \<and> j < ncols r \<and> flat r ! (i * ncols r + j) \<in> set u"
  shows "fill u r vr cells res \<noteq> Inl NotInList"
  using assms
proof (induction cells arbitrary: res)
  case Nil
  then show ?case by simp
next
  case (Cons c cells)
  obtain i j where c: "c = (i, j)" by (cases c)
  from Cons.prems c have ij: "i < nrows r" "j < ncols r" "flat r ! (i * ncols r + j) \<in> set u"
    by auto
  from index_of_mem[OF ij(3)] obtain idx where idx: "index_of u (flat r ! (i * ncols r + j)) = Some idx"
    by blast
  have rest: "\<forall>(i, j) \<in> set cells. i < nrows r \<and> j < ncols r \<and> flat r ! (i * ncols r + j) \<in> set u"
    using Cons.prems by simp
  have getitem_err: "getitem vr idx \<noteq> Inl NotInList"
    by (cases vr) auto
  have assign_err: "assign res i j v \<noteq> Inl NotInList" for v
  proof (cases res)
    case (Single M)
    then show ?thesis by (cases v) (auto split: list.splits)
  next
    case (Stacked Ms)
    then show ?thesis by (cases v) (auto split: list.splits)
  qed
  show ?case
    using ij idx Cons.IH[OF rest] getitem_err assign_err
    by (auto simp: c getitem2_in_range simp del: assign.simps split: sum.splits)
qed

lemma fill_Single_NotInList:
  assumes "\<forall>(i, j) \<in> set cells. i < nrows r \<and> j < ncols r"
    and "length u \<le> length vs"
    and "\<exists>(i, j) \<in> set cells. flat r ! (i * ncols r + j) \<notin> set u"
  shows "fill u r (Arr1 vs) cells (Single M) = Inl NotInList"
  using assms
proof (induction cells arbitrary: M)
  case Nil
  then show ?case by simp
next
  case (Cons c cells)
  obtain i j where c: "c = (i, j)" by (cases c)
  from Cons.prems(1) c have ij: "i < nrows r" "j < ncols r" by auto
  show ?case
  proof (cases "index_of u (flat r ! (i * ncols r + j))")
    case None
    then show ?thesis using ij by (simp add: c getitem2_in_range)
  next
    case (Some idx)
    from index_of_Some[OF Some] index_of_Some_mem[OF Some] Cons.prems(2)
    have idx: "idx < length vs" "flat r ! (i * ncols r + j) \<in> set u"
      by auto
    with Cons.prems c have rest: "\<forall>(i, j) \<in> set cells. i < nrows r \<and> j < ncols r"
      "\<exists>(i, j) \<in> set cells. flat r ! (i * ncols r + j) \<notin> set u"
      by auto
    from Cons.IH[OF rest(1) Cons.prems(2) rest(2)] show ?thesis
      using ij Some idx by (simp add: c getitem2_in_range)
  qed
qed

lemma fill_Stacked_NotInList:
  assumes "\<forall>(i, j) \<in> set cells. i < nrows r \<and> j < ncols r"
    and "length u \<le> length rows"
    and "\<forall>row \<in> set rows. length row = length Ms"
    and "\<exists>(i, j) \<in> set cells. flat r ! (i * ncols r + j) \<notin> set u"
  shows "fill u r (Arr2 rows) cells (Stacked Ms) = Inl NotInList"
  using assms
proof (induction cells arbitrary: Ms)
  case Nil
  then show ?case by simp
next
  case (Cons c cells)
  obtain i j where c: "c = (i, j)" by (cases c)
  from Cons.prems(1) c have ij: "i < nrows r" "j < ncols r" by auto
  show ?case
  proof (cases "index_of u (flat r ! (i * ncols r + j))")
    case None
    then show ?thesis using ij by (simp add: c getitem2_in_range)
  next
    case (Some idx)
    from index_of_Some[OF Some] index_of_Some_mem[OF Some] Cons.prems(2)
    have idx: "idx < length rows" "flat r ! (i * ncols r + j) \<in> set u"
      by auto
    then have row: "length (rows ! idx) = length Ms" using Cons.prems(3) by simp
    let ?Ms' = "map (\<lambda>s. setitem2 (Ms ! s) i j (rows ! idx ! s)) [0..<length Ms]"
    from idx Cons.prems c have rest: "\<forall>(i, j) \<in> set cells. i < nrows r \<and> j < ncols r"
      "\<forall>row \<in> set rows. length row = length ?Ms'"
      "\<exists>(i, j) \<in> set cells. flat r ! (i * ncols r + j) \<notin> set u"
      by auto
    from Cons.IH[OF rest(1) Cons.prems(2) rest(2) rest(3)] show ?thesis
      using ij Some idx row by (simp add: c getitem2_in_range assign_Stacked_row del: assign.simps)
  qed
qed

section \<open>The reconstructed matrix in closed form\<close>

lemma nditer_nonempty:
  "0 < nrows r \<Longrightarrow> 0 < ncols r \<Longrightarrow> \<exists>cells. nditer r = Inr cells"
  by (simp add: nditer_def)

lemma matrix_callable_single:
  assumes wf: "wf_matrix r" and ne: "0 < nrows r" "0 < ncols r"
    and drawn: "\<forall>s \<in> set (flat r). s \<in> set u"
    and vc: "vc t = Inr (Arr1 vs)" and n: "length u \<le> length vs"
    and t: "\<not> as_array t"
  shows "matrix_callable True vc u r z t =
           Inr (Single (matrix_map (\<lambda>s. vs ! the (index_of u s)) r))"
proof -
  from nditer_nonempty[OF ne] obtain cells where cells: "nditer r = Inr cells" by blast
  have present: "\<forall>s \<in> set (flat r). \<exists>idx. index_of u s = Some idx \<and> idx < length vs"
  proof
    fix s assume "s \<in> set (flat r)"
    with drawn have "s \<in> set u" by simp
    from index_of_mem[OF this] obtain idx where idx: "index_of u s = Some idx" by blast
    from index_of_Some[OF idx] n have "idx < length vs" by simp
    with idx show "\<exists>idx. index_of u s = Some idx \<and> idx < length vs" by blast
  qed
  show ?thesis
    using fill_single_closed[OF wf cells present, of z] vc cells t
    by (simp add: matrix_callable_def shape_def initial_result_single)
qed

lemma matrix_callable_stacked:
  assumes wf: "wf_matrix r" and ne: "0 < nrows r" "0 < ncols r"
    and drawn: "\<forall>s \<in> set (flat r). s \<in> set u"
    and vc: "vc (Sequence ts) = Inr (Arr2 rows)" and n: "length u \<le> length rows"
    and rows: "\<forall>row \<in> set rows. length row = length ts"
    and k: "1 < length ts"
  shows "matrix_callable b vc u r z (Sequence ts) =
           Inr (Stacked (map (\<lambda>s. matrix_map (\<lambda>sym. rows ! the (index_of u sym) ! s) r)
                  [0..<length ts]))"
proof -
  from nditer_nonempty[OF ne] obtain cells where cells: "nditer r = Inr cells" by blast
  have present: "\<forall>s \<in> set (flat r). \<exists>idx. index_of u s = Some idx \<and> idx < length rows \<and>
        length (rows ! idx) = length ts"
  proof
    fix s assume "s \<in> set (flat r)"
    with drawn have "s \<in> set u" by simp
    from index_of_mem[OF this] obtain idx where idx: "index_of u s = Some idx" by blast
    from index_of_Some[OF idx] n have "idx < length rows" by simp
    with idx rows show "\<exists>idx. index_of u s = Some idx \<and> idx < length rows \<and>
        length (rows ! idx) = length ts" by auto
  qed
  show ?thesis
    using fill_stacked_closed[OF wf cells present, of z] vc cells k
    by (simp add: matrix_callable_def shape_def)
qed

lemma getitem2_matrix_map:
  "wf_matrix r \<Longrightarrow> i < nrows r \<Longrightarrow> j < ncols r \<Longrightarrow>
   getitem2 (matrix_map f r) i j = Inr (f (flat r ! (i * ncols r + j)))"
  by (simp add: getitem2_def matrix_map_def wf_matrix_def cell_in_range)


lemma matrix_callable_length_one:
  "matrix_callable b vector_callable unraveled raveled z (Sequence [t0]) =
   matrix_callable b (\<lambda>t. vector_callable (Sequence [t0])) unraveled raveled z (Scalar t0)"
  by (simp add: matrix_callable_def shape_def split: sum.splits)

text \<open>
  Without \<^verbatim>\<open>numpy.matlib\<close> the branch of a scalar time, or of a sequence of at most
  one time, ends at the allocation.
\<close>

lemma matrix_callable_raises:
  "\<not> as_array t \<Longrightarrow>
   matrix_callable False vector_callable unraveled raveled z t =
     (case vector_callable t of Inl e \<Rightarrow> Inl e | Inr vector_result \<Rightarrow> Inl AttributeError)"
  by (simp add: matrix_callable_def initial_result_raises split: sum.splits)

text \<open>
  A column of values, one row per symbol, is read by the scalar branch like the vector
  of the values.
\<close>

lemma fill_Single_column:
  assumes "\<forall>row \<in> set rows. length row = 1"
  shows "fill u r (Arr2 rows) cells (Single M) = fill u r (Arr1 (map hd rows)) cells (Single M)"
proof (induction cells arbitrary: M)
  case Nil
  show ?case by simp
next
  case (Cons c cells)
  obtain i j where c: "c = (i, j)" by (cases c)
  have item: "(case getitem (Arr2 rows) idx of Inl e \<Rightarrow> Inl e | Inr v \<Rightarrow> as_scalar v) =
              (case getitem (Arr1 (map hd rows)) idx of Inl e \<Rightarrow> Inl e | Inr v \<Rightarrow> as_scalar v)"
    for idx
  proof (cases "idx < length rows")
    case True
    then have "length (rows ! idx) = 1" using assms by simp
    then obtain v where "rows ! idx = [v]" by (cases "rows ! idx") auto
    with True show ?thesis by simp
  next
    case False
    then show ?thesis by simp
  qed
  show ?case
  proof (cases "getitem2 r i j")
    case (Inl e)
    then show ?thesis by (simp add: c)
  next
    case (Inr s)
    show ?thesis
    proof (cases "index_of u s")
      case None
      with Inr show ?thesis by (simp add: c)
    next
      case (Some idx)
      from item[of idx] Cons.IH Inr Some show ?thesis
        by (auto simp: c split: sum.splits)
    qed
  qed
qed


section \<open>The loop of \<open>system_from_matrix_DE\<close>\<close>

lemma place_fold:
  assumes "\<forall>(i, j) \<in> set cells. i < nrows mat_var \<and> j < ncols mat_var \<and>
             i < nrows mat_DE \<and> j < ncols mat_DE \<and>
             flat mat_var ! (i * ncols mat_var + j) \<in> set vec_var"
  shows "place vec_var mat_DE mat_var cells vec_DE =
           Inr (vec_DE\<lparr>flat := fold (\<lambda>(i, j) ys.
                  ys[the (index_of vec_var (flat mat_var ! (i * ncols mat_var + j))) :=
                     flat mat_DE ! (i * ncols mat_DE + j)]) cells (flat vec_DE)\<rparr>)"
  using assms
proof (induction cells arbitrary: vec_DE)
  case Nil
  then show ?case by simp
next
  case (Cons c cells)
  obtain i j where c: "c = (i, j)" by (cases c)
  from Cons.prems c have ij: "i < nrows mat_var" "j < ncols mat_var" "i < nrows mat_DE"
    "j < ncols mat_DE" "flat mat_var ! (i * ncols mat_var + j) \<in> set vec_var"
    by auto
  from index_of_mem[OF ij(5)] obtain idx where
    idx: "index_of vec_var (flat mat_var ! (i * ncols mat_var + j)) = Some idx" by blast
  have rest: "\<forall>(i, j) \<in> set cells. i < nrows mat_var \<and> j < ncols mat_var \<and>
             i < nrows mat_DE \<and> j < ncols mat_DE \<and>
             flat mat_var ! (i * ncols mat_var + j) \<in> set vec_var"
    using Cons.prems by simp
  show ?case
    using ij idx Cons.IH[OF rest]
    by (simp add: c getitem2_in_range setitem_flat_def)
qed

lemma place_IndexError:
  assumes "\<forall>(i, j) \<in> set cells. i < nrows mat_DE \<and> j < ncols mat_DE"
    and "\<forall>(i, j) \<in> set cells. i < nrows mat_var \<and> j < ncols mat_var \<longrightarrow>
           flat mat_var ! (i * ncols mat_var + j) \<in> set vec_var"
    and "\<exists>(i, j) \<in> set cells. \<not> (i < nrows mat_var \<and> j < ncols mat_var)"
  shows "place vec_var mat_DE mat_var cells vec_DE = Inl IndexError"
  using assms
proof (induction cells arbitrary: vec_DE)
  case Nil
  then show ?case by simp
next
  case (Cons c cells)
  obtain i j where c: "c = (i, j)" by (cases c)
  show ?case
  proof (cases "i < nrows mat_var \<and> j < ncols mat_var")
    case False
    then have "getitem2 mat_var i j = Inl IndexError" by (auto simp: getitem2_def)
    then show ?thesis by (simp add: c)
  next
    case True
    with Cons.prems c have mem: "flat mat_var ! (i * ncols mat_var + j) \<in> set vec_var"
      and de: "i < nrows mat_DE" "j < ncols mat_DE" by auto
    from index_of_mem[OF mem] obtain idx where
      idx: "index_of vec_var (flat mat_var ! (i * ncols mat_var + j)) = Some idx" by blast
    from True Cons.prems c have rest:
      "\<forall>(i, j) \<in> set cells. i < nrows mat_DE \<and> j < ncols mat_DE"
      "\<forall>(i, j) \<in> set cells. i < nrows mat_var \<and> j < ncols mat_var \<longrightarrow>
           flat mat_var ! (i * ncols mat_var + j) \<in> set vec_var"
      "\<exists>(i, j) \<in> set cells. \<not> (i < nrows mat_var \<and> j < ncols mat_var)"
      by auto
    from Cons.IH[OF rest] show ?thesis
      using True idx de by (simp add: c getitem2_in_range)
  qed
qed

lemma fold_update_untouched:
  "k \<notin> pos ` set cells \<Longrightarrow> fold (\<lambda>c ys. ys[pos c := g c]) cells xs ! k = xs ! k"
  by (induction cells arbitrary: xs) auto

lemma fold_update_inj:
  "distinct (map pos cells) \<Longrightarrow> c \<in> set cells \<Longrightarrow> pos c < length xs \<Longrightarrow>
   fold (\<lambda>c ys. ys[pos c := g c]) cells xs ! pos c = g c"
proof (induction cells arbitrary: xs)
  case Nil
  then show ?case by simp
next
  case (Cons a cells)
  show ?case
  proof (cases "c = a")
    case True
    have "pos a \<notin> pos ` set cells" using Cons.prems(1) by simp
    from fold_update_untouched[OF this, of g "xs[pos a := g a]"] Cons.prems(3) True
    show ?thesis by simp
  next
    case False
    with Cons.prems have "c \<in> set cells" "distinct (map pos cells)"
      "pos c < length (xs[pos a := g a])" by simp_all
    from Cons.IH[OF this(2) this(1) this(3)] show ?thesis by simp
  qed
qed

lemma cell_positions:
  "map (\<lambda>(i, j). i * q + j) (concat (map (\<lambda>i. map (\<lambda>j. (i, j)) [0..<q]) [0..<p])) = [0..<p * q]"
proof (induction p)
  case 0
  then show ?case by simp
next
  case (Suc p)
  have "map (\<lambda>j. p * q + j) [0..<q] = [p * q..<p * q + q]"
    by (rule nth_equalityI) auto
  moreover have "[0..<p * q + q] = [0..<p * q] @ [p * q..<p * q + q]"
    by (rule upt_add_eq_append) simp
  moreover have "Suc p * q = p * q + q" by simp
  ultimately show ?case using Suc by (simp add: comp_def del: mult_Suc)
qed

lemma fold_cells_positions:
  "fold (\<lambda>(i, j). F (i * q + j)) cells ys = fold F (map (\<lambda>(i, j). i * q + j) cells) ys"
  by (induction cells arbitrary: ys) auto

lemma index_of_nth_distinct:
  "distinct xs \<Longrightarrow> k < length xs \<Longrightarrow> index_of xs (xs ! k) = Some k"
proof -
  assume d: "distinct xs" and k: "k < length xs"
  then have "xs ! k \<in> set xs" by simp
  from index_of_mem[OF this] obtain k' where k': "index_of xs (xs ! k) = Some k'" by blast
  from index_of_Some[OF k'] have "k' < length xs" "xs ! k' = xs ! k" by simp_all
  with nth_eq_iff_index_eq[OF d this(1) k] have "k' = k" by simp
  with k' show ?thesis by simp
qed

text \<open>The system that the converter builds from matrices of equal shape.\<close>

lemma system_from_matrix_DE_result:
  assumes order: "set_iteration list_of_set"
    and wf: "wf_matrix mat_var"
    and ne: "0 < nrows mat_DE" "0 < ncols mat_DE"
    and fits: "nrows mat_DE \<le> nrows mat_var" "ncols mat_DE \<le> ncols mat_var"
  shows "\<exists>V. system_from_matrix_DE list_of_set mat_DE mat_var mat_input constants =
           Inr (DynamicalSystem V (Matrix_of_list (list_of_set (flat mat_var))) mat_input constants) \<and>
         nrows V = length (list_of_set (flat mat_var)) \<and> ncols V = 1 \<and>
         flat V = fold (\<lambda>(i, j) ys.
                  ys[the (index_of (list_of_set (flat mat_var)) (flat mat_var ! (i * ncols mat_var + j))) :=
                     flat mat_DE ! (i * ncols mat_DE + j)])
                (concat (map (\<lambda>i. map (\<lambda>j. (i, j)) [0..<ncols mat_DE]) [0..<nrows mat_DE]))
                (replicate (length (list_of_set (flat mat_var))) (Integer 0))"
proof -
  let ?vv = "list_of_set (flat mat_var)"
  let ?cells = "concat (map (\<lambda>i. map (\<lambda>j. (i, j)) [0..<ncols mat_DE]) [0..<nrows mat_DE])"
  have cells: "nditer mat_DE = Inr ?cells" using ne by (simp add: nditer_def)
  have vv: "set ?vv = set (flat mat_var)" using order by (simp add: set_iteration_def)
  have pre: "\<forall>(i, j) \<in> set ?cells. i < nrows mat_var \<and> j < ncols mat_var \<and>
             i < nrows mat_DE \<and> j < ncols mat_DE \<and>
             flat mat_var ! (i * ncols mat_var + j) \<in> set ?vv"
  proof (clarify, intro conjI)
    fix i j assume "(i, j) \<in> set ?cells"
    with cells_in_range[OF cells] have de: "i < nrows mat_DE" "j < ncols mat_DE" by auto
    then show "i < nrows mat_DE" "j < ncols mat_DE" by simp_all
    from de fits show var: "i < nrows mat_var" "j < ncols mat_var" by simp_all
    from flat_nth_mem[OF wf var] vv show "flat mat_var ! (i * ncols mat_var + j) \<in> set ?vv"
      by simp
  qed
  let ?V = "\<lparr>nrows = length ?vv, ncols = 1, flat = fold (\<lambda>(i, j) ys.
                  ys[the (index_of ?vv (flat mat_var ! (i * ncols mat_var + j))) :=
                     flat mat_DE ! (i * ncols mat_DE + j)]) ?cells
                (replicate (length ?vv) (Integer 0))\<rparr>"
  have "system_from_matrix_DE list_of_set mat_DE mat_var mat_input constants =
           Inr (DynamicalSystem ?V (Matrix_of_list ?vv) mat_input constants)"
    using place_fold[OF pre, of "zeros (Integer 0) (length ?vv) 1"] cells wf
    by (simp add: system_from_matrix_DE_def flatten_tolist Let_def zeros_def)
  then show ?thesis by (intro exI[of _ ?V]) simp
qed

lemma placed_entries:
  fixes vv fm :: "'a list" and de :: "nat \<Rightarrow> 'b" and z :: 'b
  assumes d: "distinct vv" and sv: "set vv = set fm" and dfm: "distinct fm"
    and n: "length fm = n"
  defines "h \<equiv> \<lambda>k. the (index_of vv (fm ! k))"
  defines "ys \<equiv> fold (\<lambda>k ys. ys[h k := de k]) [0..<n] (replicate (length vv) z)"
  shows "length ys = length vv"
    and "\<forall>k < n. index_of vv (fm ! k) = Some (h k) \<and> h k < length vv \<and> ys ! h k = de k"
    and "\<forall>idx < length vv. \<exists>k < n. fm ! k = vv ! idx \<and> ys ! idx = de k"
proof -
  show len: "length ys = length vv"
    unfolding ys_def by (simp add: fold_update_length)
  have hk: "index_of vv (fm ! k) = Some (h k) \<and> h k < length vv \<and> vv ! h k = fm ! k"
    if "k < n" for k
  proof -
    from that n sv have "fm ! k \<in> set vv" by auto
    from index_of_mem[OF this] obtain idx where idx: "index_of vv (fm ! k) = Some idx" by blast
    with index_of_Some[OF idx] show ?thesis by (simp add: h_def)
  qed
  have inj: "inj_on h {0..<n}"
  proof (rule inj_onI)
    fix k k' assume k: "k \<in> {0..<n}" "k' \<in> {0..<n}" and eq: "h k = h k'"
    then have "fm ! k = fm ! k'" using hk[of k] hk[of k'] by simp
    with k n dfm show "k = k'" by (simp add: nth_eq_iff_index_eq)
  qed
  then have dist: "distinct (map h [0..<n])" by (simp add: distinct_map)
  show cells: "\<forall>k < n. index_of vv (fm ! k) = Some (h k) \<and> h k < length vv \<and> ys ! h k = de k"
  proof (intro allI impI)
    fix k assume k: "k < n"
    then have "k \<in> set [0..<n]" by simp
    from fold_update_inj[OF dist this, of "replicate (length vv) z" de] hk[OF k]
    show "index_of vv (fm ! k) = Some (h k) \<and> h k < length vv \<and> ys ! h k = de k"
      by (simp add: ys_def)
  qed
  show "\<forall>idx < length vv. \<exists>k < n. fm ! k = vv ! idx \<and> ys ! idx = de k"
  proof (intro allI impI)
    fix idx assume idx: "idx < length vv"
    then have "vv ! idx \<in> set fm" using sv by (metis nth_mem)
    then obtain k where k: "k < n" "fm ! k = vv ! idx" using n by (auto simp: in_set_conv_nth)
    from index_of_nth_distinct[OF d idx] k have "h k = idx" by (simp add: h_def)
    with cells k show "\<exists>k < n. fm ! k = vv ! idx \<and> ys ! idx = de k" by auto
  qed
qed


section \<open>The pairs that \<open>matrix_subs\<close> emits\<close>

lemma emit_pair:
  assumes "\<forall>(i, j) \<in> set cells. i < nrows A \<and> j < ncols A \<and> i < nrows V \<and> j < ncols V"
  shows "emit (Tuple [Mat A, Mat V]) cells =
           Inr (filter nonzero (map (\<lambda>(i, j). (flat A ! (i * ncols A + j), flat V ! (i * ncols V + j))) cells))"
  using assms
proof (induction cells)
  case Nil
  then show ?case by simp
next
  case (Cons c cells)
  obtain i j where c: "c = (i, j)" by (cases c)
  from Cons.prems c have ij: "i < nrows A" "j < ncols A" "i < nrows V" "j < ncols V" by auto
  have rest: "\<forall>(i, j) \<in> set cells. i < nrows A \<and> j < ncols A \<and> i < nrows V \<and> j < ncols V"
    using Cons.prems by simp
  show ?case
    using ij Cons.IH[OF rest] by (simp add: c getitem2_in_range nonzero_def)
qed

lemma cells_of_range:
  "\<forall>(i, j) \<in> set (cells_of (p, q)). i < p \<and> j < q"
  by (auto simp: cells_of_def)

lemma zip_as_positions:
  "length xs = n \<Longrightarrow> length ys = n \<Longrightarrow> map (\<lambda>k. (xs ! k, ys ! k)) [0..<n] = zip xs ys"
  by (rule nth_equalityI) auto

lemma pairs_of_pair:
  assumes wf: "wf_matrix A" "wf_matrix V" and shp: "shape A = shape V"
  shows "pairs_of (Tuple [Mat A, Mat V]) = Inr (filter nonzero (zip (flat A) (flat V)))"
proof -
  let ?p = "nrows A" and ?q = "ncols A"
  have dims: "nrows V = ?p" "ncols V = ?q" using shp by (simp_all add: shape_def)
  have len: "length (flat A) = ?p * ?q" "length (flat V) = ?p * ?q"
    using wf dims by (simp_all add: wf_matrix_def)
  have rng: "\<forall>(i, j) \<in> set (cells_of (?p, ?q)). i < nrows A \<and> j < ncols A \<and> i < nrows V \<and> j < ncols V"
    using cells_of_range[of ?p ?q] dims by auto
  have "map (\<lambda>(i, j). (flat A ! (i * ?q + j), flat V ! (i * ?q + j))) (cells_of (?p, ?q)) =
          map (\<lambda>k. (flat A ! k, flat V ! k)) (map (\<lambda>(i, j). i * ?q + j) (cells_of (?p, ?q)))"
    by (simp add: comp_def case_prod_beta)
  also have "\<dots> = map (\<lambda>k. (flat A ! k, flat V ! k)) [0..<?p * ?q]"
    by (simp only: cells_of_def fst_conv snd_conv cell_positions)
  also have "\<dots> = zip (flat A) (flat V)"
    using len by (rule zip_as_positions)
  finally show ?thesis
    using emit_pair[OF rng] dims by (simp add: pairs_of_def shape_def)
qed

lemma matrix_subs_two_matrices:
  "matrix_subs [Mat A, Mat V] =
     (case pairs_of (Tuple [Mat A, Mat V]) of Inl e \<Rightarrow> Inl e | Inr ps \<Rightarrow> Inr (PairTuple ps))"
  by (simp add: matrix_subs_def split: sum.splits)

lemma subs_Cons: "subs ((old, new) # ps) e = subs ps (subs1 old new e)"
  by (simp add: subs_def)

lemma subs_number:
  "\<forall>p \<in> set ps. is_symbol (fst p) \<Longrightarrow> subs ps (Integer n) = Integer n"
proof (induction ps)
  case Nil
  then show ?case by (simp add: subs_def)
next
  case (Cons p ps)
  obtain old new where p: "p = (old, new)" by (cases p)
  from Cons.prems p have "is_symbol old" by simp
  then have "subs1 old new (Integer n) = Integer n" by (cases old) (auto simp: subs1.simps)
  with Cons show ?case by (simp add: p subs_Cons)
qed

lemma subs1_symbol:
  "is_symbol s \<Longrightarrow> subs1 old new s = (if s = old then new else s)"
  by (cases s) (auto simp: subs1.simps)

lemma subs_symbol:
  assumes "distinct (map fst ps)" and "\<forall>p \<in> set ps. is_symbol (fst p) \<and> is_number (snd p)"
    and "(s, v) \<in> set ps"
  shows "subs ps s = v"
  using assms
proof (induction ps)
  case Nil
  then show ?case by simp
next
  case (Cons p ps)
  obtain old new where p: "p = (old, new)" by (cases p)
  from Cons.prems(2) p have old: "is_symbol old" and new: "is_number new"
    and rest: "\<forall>p \<in> set ps. is_symbol (fst p) \<and> is_number (snd p)" by simp_all
  show ?case
  proof (cases "s = old")
    case True
    have "v = new"
    proof (rule ccontr)
      assume "v \<noteq> new"
      with Cons.prems(3) p True have "(old, v) \<in> set ps" by simp
      then have "old \<in> fst ` set ps" by force
      with Cons.prems(1) p show False by simp
    qed
    moreover from new obtain n where "new = Integer n" by (cases new) auto
    ultimately show ?thesis
      using True old rest subs_number[of ps n] by (simp add: p subs_Cons subs1_symbol)
  next
    case False
    with Cons.prems p have in_rest: "(s, v) \<in> set ps" and d: "distinct (map fst ps)" by auto
    from in_rest rest have "is_symbol s" by force
    with False Cons.IH[OF d rest in_rest] show ?thesis
      by (simp add: p subs_Cons subs1_symbol)
  qed
qed

lemma filter_zip_fst:
  "length xs = length ys \<Longrightarrow>
   map fst (filter (\<lambda>p. P (fst p)) (zip xs ys)) = filter P xs"
  by (induction xs ys rule: list_induct2) auto

lemma zip_nth_mem:
  "k < length xs \<Longrightarrow> k < length ys \<Longrightarrow> (xs ! k, ys ! k) \<in> set (zip xs ys)"
  by (metis length_zip min_less_iff_conj nth_mem nth_zip)


lemma collect_pairs:
  assumes "\<forall>(A, V) \<in> set pairs. wf_matrix A \<and> wf_matrix V \<and> shape A = shape V"
  shows "collect (items pairs) =
           Inr (concat (map (\<lambda>(A, V). filter nonzero (zip (flat A) (flat V))) pairs))"
  using assms
proof (induction pairs)
  case Nil
  then show ?case by (simp add: items_def)
next
  case (Cons p pairs)
  obtain A V where p: "p = (A, V)" by (cases p)
  from Cons.prems p have "wf_matrix A" "wf_matrix V" "shape A = shape V" by auto
  from pairs_of_pair[OF this] Cons show ?case
    by (simp add: p items_def)
qed

lemma matrix_subs_pair_sequence:
  assumes "\<forall>(A, V) \<in> set pairs. wf_matrix A \<and> wf_matrix V \<and> shape A = shape V"
  shows "matrix_subs (items pairs) =
           Inr (PairTuple (concat (map (\<lambda>(A, V). filter nonzero (zip (flat A) (flat V))) pairs)))"
proof -
  have "\<not> (length (items pairs) = 2 \<and> \<not> is_list_tuple_dict (items pairs ! 0))"
  proof
    assume a: "length (items pairs) = 2 \<and> \<not> is_list_tuple_dict (items pairs ! 0)"
    then have "0 < length pairs" by (simp add: items_def)
    then have "is_list_tuple_dict (items pairs ! 0)"
      by (simp add: items_def case_prod_beta)
    with a show False by simp
  qed
  then have "(length (items pairs) = 2 \<and> \<not> is_list_tuple_dict (items pairs ! 0)) = False"
    by simp
  then show ?thesis
    using collect_pairs[OF assms] by (simp only: matrix_subs_def Let_def if_False) simp
qed

section \<open>Names of symbols and matrices given by a function\<close>














lemma row_positions:
  "0 < c \<Longrightarrow> map (\<lambda>k. f (k div c) (k mod c)) [r * c..<r * c + c] = map (f r) [0..<c]"
  by (rule nth_equalityI) auto

lemma new_matrix_flat:
  "flat (new_matrix r c f) = map (\<lambda>k. f (k div c) (k mod c)) [0..<r * c]"
proof (cases "c = 0")
  case True
  then show ?thesis by (simp add: new_matrix_def)
next
  case False
  then have c: "0 < c" by simp
  have "concat (map (\<lambda>i. map (\<lambda>j. f i j) [0..<c]) [0..<r]) =
          map (\<lambda>k. f (k div c) (k mod c)) [0..<r * c]"
  proof (induction r)
    case 0
    then show ?case by simp
  next
    case (Suc r)
    have "[0..<r * c + c] = [0..<r * c] @ [r * c..<r * c + c]"
      by (rule upt_add_eq_append) simp
    moreover have "Suc r * c = r * c + c" by simp
    ultimately show ?case
      using Suc row_positions[OF c, of f r] by (simp del: mult_Suc)
  qed
  then show ?thesis by (simp add: new_matrix_def)
qed

lemma new_matrix_wf: "wf_matrix (new_matrix r c f)"
  by (simp add: wf_matrix_def new_matrix_flat) (simp add: new_matrix_def)

lemma new_matrix_dims: "nrows (new_matrix r c f) = r" "ncols (new_matrix r c f) = c"
  by (simp_all add: new_matrix_def)

lemma getitem2_new_matrix:
  "i < r \<Longrightarrow> j < c \<Longrightarrow> getitem2 (new_matrix r c f) i j = Inr (f i j)"
  using cell_in_range[of i r j c]
  by (simp add: getitem2_def new_matrix_dims new_matrix_flat)

section \<open>\<open>block_matrix\<close> on grids of two by two blocks\<close>

lemma getitem2_entry_at:
  "i < nrows M \<Longrightarrow> j < ncols M \<Longrightarrow> getitem2 M i j = Inr (entry_at M i j)"
  by (simp add: getitem2_def entry_at_def)

lemma entry_at_new_matrix:
  "i < r \<Longrightarrow> j < c \<Longrightarrow> entry_at (new_matrix r c f) i j = f i j"
proof -
  assume ij: "i < r" "j < c"
  then have "getitem2 (new_matrix r c f) i j = Inr (entry_at (new_matrix r c f) i j)"
    by (intro getitem2_entry_at) (simp_all add: new_matrix_dims)
  with getitem2_new_matrix[OF ij, of f] show ?thesis by simp
qed

text \<open>
  A grid of two rows of two blocks each, with matching dimensions, is assembled: every
  block stands at its offset.
\<close>

lemma block_matrix_two_by_two:
  assumes rows: "nrows A = nrows B" "nrows C = nrows D"
    and cols: "ncols A = ncols C" "ncols B = ncols D"
  shows "\<exists>M. block_matrix [[A, B], [C, D]] = Inr M \<and>
           nrows M = nrows A + nrows C \<and> ncols M = ncols A + ncols B \<and> wf_matrix M \<and>
           (\<forall>i < nrows A. \<forall>j < ncols A. getitem2 M i j = getitem2 A i j) \<and>
           (\<forall>i < nrows A. \<forall>j < ncols B. getitem2 M i (ncols A + j) = getitem2 B i j) \<and>
           (\<forall>i < nrows C. \<forall>j < ncols A. getitem2 M (nrows A + i) j = getitem2 C i j) \<and>
           (\<forall>i < nrows C. \<forall>j < ncols B. getitem2 M (nrows A + i) (ncols A + j) = getitem2 D i j)"
proof -
  let ?R1 = "eval_row_join A B" and ?R2 = "eval_row_join C D"
  let ?M = "eval_col_join ?R1 ?R2"
  have r1: "row_join A B = Inr ?R1" using rows by (simp add: row_join_def)
  have r2: "row_join C D = Inr ?R2" using rows by (simp add: row_join_def)
  have d1: "nrows ?R1 = nrows A" "ncols ?R1 = ncols A + ncols B"
    by (simp_all add: eval_row_join_def new_matrix_dims)
  have d2: "nrows ?R2 = nrows C" "ncols ?R2 = ncols A + ncols B"
    using cols by (simp_all add: eval_row_join_def new_matrix_dims)
  have cj: "col_join ?R1 ?R2 = Inr ?M" using d1 d2 by (simp add: col_join_def)
  have res: "block_matrix [[A, B], [C, D]] = Inr ?M"
    by (simp add: block_matrix_def r1 r2 cj)
  have dM: "nrows ?M = nrows A + nrows C" "ncols ?M = ncols A + ncols B"
    using d1 d2 by (simp_all add: eval_col_join_def new_matrix_dims)
  have wf: "wf_matrix ?M" by (simp add: eval_col_join_def new_matrix_wf)
  have top: "getitem2 ?M i j = Inr (entry_at ?R1 i j)"
    if "i < nrows A" "j < ncols A + ncols B" for i j
    using that d1 by (simp add: eval_col_join_def getitem2_new_matrix)
  have bottom: "getitem2 ?M (nrows A + i) j = Inr (entry_at ?R2 i j)"
    if "i < nrows C" "j < ncols A + ncols B" for i j
    using that d1 d2 by (simp add: eval_col_join_def getitem2_new_matrix)
  have e1: "entry_at ?R1 i j = (if j < ncols A then entry_at A i j else entry_at B i (j - ncols A))"
    if "i < nrows A" "j < ncols A + ncols B" for i j
    using that by (simp add: eval_row_join_def entry_at_new_matrix)
  have e2: "entry_at ?R2 i j = (if j < ncols A then entry_at C i j else entry_at D i (j - ncols A))"
    if "i < nrows C" "j < ncols A + ncols B" for i j
    using that cols by (simp add: eval_row_join_def entry_at_new_matrix)
  have a: "\<forall>i < nrows A. \<forall>j < ncols A. getitem2 ?M i j = getitem2 A i j"
    using top e1 by (simp add: getitem2_entry_at)
  have b: "\<forall>i < nrows A. \<forall>j < ncols B. getitem2 ?M i (ncols A + j) = getitem2 B i j"
    using top e1 rows by (simp add: getitem2_entry_at)
  have c: "\<forall>i < nrows C. \<forall>j < ncols A. getitem2 ?M (nrows A + i) j = getitem2 C i j"
    using bottom e2 cols by (simp add: getitem2_entry_at)
  have d: "\<forall>i < nrows C. \<forall>j < ncols B. getitem2 ?M (nrows A + i) (ncols A + j) = getitem2 D i j"
    using bottom e2 cols rows by (simp add: getitem2_entry_at)
  from res dM wf a b c d show ?thesis by blast
qed

text \<open>The blocks of shapes \<open>2 \<times> 3\<close>, \<open>2 \<times> 2\<close> over \<open>1 \<times> 3\<close>, \<open>1 \<times> 2\<close> give a \<open>3 \<times> 5\<close> matrix.\<close>

lemma block_matrix_example:
  "block_matrix
     [[\<lparr>nrows = 2, ncols = 3, flat = [1, 2, 3, 4, 5, 6 :: int]\<rparr>,
       \<lparr>nrows = 2, ncols = 2, flat = [7, 8, 9, 10]\<rparr>],
      [\<lparr>nrows = 1, ncols = 3, flat = [11, 12, 13]\<rparr>,
       \<lparr>nrows = 1, ncols = 2, flat = [14, 15]\<rparr>]]
   = Inr \<lparr>nrows = 3, ncols = 5,
          flat = [1, 2, 3, 7, 8,
                  4, 5, 6, 9, 10,
                  11, 12, 13, 14, 15]\<rparr>"
  by (simp add: block_matrix_def row_join_def col_join_def eval_row_join_def eval_col_join_def
      new_matrix_def entry_at_def numeral_2_eq_2 numeral_3_eq_3 upt_rec)


text \<open>Any other number of block rows fails, whatever the blocks are.\<close>

lemma block_matrix_one_block_row: "\<exists>e. block_matrix [[A, B]] = Inl e"
  by (cases "row_join A B") (simp_all add: block_matrix_def)

lemma block_matrix_three_block_rows:
  "\<exists>e. block_matrix [[A, B], [C, D], [E, F]] = Inl e"
  by (cases "row_join A B"; cases "row_join C D"; cases "row_join E F")
    (simp_all add: block_matrix_def)

section \<open>Claims about \<open>matrix_callable_from_vector_trajectory\<close>\<close>

text \<open>
  With \<^verbatim>\<open>numpy.matlib\<close> imported by some other module, the scalar case does what its
  description says. For a sample array \<open>x\<close> with \<open>n\<close> columns, an unraveled order of \<open>n\<close>
  symbols and a \<open>p \<times> q\<close> raveled layout (with at least one cell) whose symbols are
  drawn from the unraveled order: when the interpolating callable returns the vector
  \<open>vs\<close> of \<open>n\<close> values at the scalar time \<open>t\<close>, the returned callable gives at \<open>t\<close> one
  \<open>p \<times> q\<close> matrix whose entry \<open>(i, j)\<close> is \<open>vs ! idx\<close>, where \<open>idx\<close> is the position of
  \<open>raveled[i, j]\<close> in the unraveled order.
\<close>

lemma scalar_time_with_matlib:
  assumes wf: "wf_matrix raveled" and ne: "0 < nrows raveled" "0 < ncols raveled"
    and drawn: "\<forall>s \<in> set (flat raveled). s \<in> set (unraveled_list unraveled)"
    and vc: "callable_from_trajectory tt x (Scalar t) = Inr (Arr1 vs)"
    and n: "length (unraveled_list unraveled) = ncols x" "length vs = ncols x"
  shows "\<exists>M. matrix_callable_from_vector_trajectory True callable_from_trajectory tt x
                unraveled raveled z (Scalar t) = Inr (Single M) \<and>
             shape M = shape raveled \<and> wf_matrix M \<and>
             (\<forall>i < nrows raveled. \<forall>j < ncols raveled. \<exists>s idx.
                getitem2 raveled i j = Inr s \<and>
                index_of (unraveled_list unraveled) s = Some idx \<and>
                unraveled_list unraveled ! idx = s \<and>
                getitem2 M i j = Inr (vs ! idx))"
proof -
  let ?u = "unraveled_list unraveled"
  let ?M = "matrix_map (\<lambda>s. vs ! the (index_of ?u s)) raveled"
  have le: "length ?u \<le> length vs" using n by simp
  have res: "matrix_callable_from_vector_trajectory True callable_from_trajectory tt x
                unraveled raveled z (Scalar t) = Inr (Single ?M)"
    using matrix_callable_single[where vc = "callable_from_trajectory tt x" and t = "Scalar t",
        OF wf ne drawn vc le, of z]
    by (simp add: matrix_callable_from_vector_trajectory_def)
  have shp: "shape ?M = shape raveled" "wf_matrix ?M"
    using wf by (simp_all add: shape_def matrix_map_def wf_matrix_def)
  have ent: "\<exists>s idx. getitem2 raveled i j = Inr s \<and> index_of ?u s = Some idx \<and>
                ?u ! idx = s \<and> getitem2 ?M i j = Inr (vs ! idx)"
    if ij: "i < nrows raveled" "j < ncols raveled" for i j
  proof -
    let ?s = "flat raveled ! (i * ncols raveled + j)"
    have "?s \<in> set ?u" using drawn flat_nth_mem[OF wf ij] by simp
    from index_of_mem[OF this] obtain idx where idx: "index_of ?u ?s = Some idx" by blast
    have "getitem2 raveled i j = Inr ?s" using ij by (simp add: getitem2_in_range)
    moreover have "?u ! idx = ?s" using index_of_Some[OF idx] by simp
    moreover have "getitem2 ?M i j = Inr (vs ! idx)"
      by (simp add: getitem2_matrix_map[OF wf ij] idx)
    ultimately show ?thesis using idx by blast
  qed
  from res shp ent show ?thesis by blast
qed

text \<open>
  The example: unraveled order \<open>[a, b, c]\<close>, the sample row \<open>[1, 2, 3]\<close> at one time point
  and the layout \<open>[[a, b], [b, c]]\<close> give \<open>[[1, 2], [2, 3]]\<close>, with \<^verbatim>\<open>numpy.matlib\<close>
  imported.
\<close>

lemma scalar_time_example_with_matlib:
  "matrix_callable_from_vector_trajectory True (\<lambda>tt x t. Inr (Arr1 (flat x))) [0::int]
       \<lparr>nrows = 1, ncols = 3, flat = [1, 2, 3 :: int]\<rparr> (AsList [''a'', ''b'', ''c''])
       \<lparr>nrows = 2, ncols = 2, flat = [''a'', ''b'', ''b'', ''c'']\<rparr> 0 (Scalar 0)
     = Inr (Single \<lparr>nrows = 2, ncols = 2, flat = [1, 2, 2, 3]\<rparr>)"
  by (simp add: matrix_callable_from_vector_trajectory_def matrix_callable_def matlib_zeros_def
      nditer_def shape_def zeros_def getitem2_def setitem2_def numeral_2_eq_2 upt_rec)

text \<open>
  Claim C1 says that the callable, applied to a scalar time, returns the \<open>p \<times> q\<close> matrix
  of the looked-up values, \<open>[[1, 2], [2, 3]]\<close> in its example. The scalar branch
  allocates its result with \<^verbatim>\<open>np.matlib.zeros\<close>, and the module imports only
  \<^verbatim>\<open>numpy\<close>: unless another module has imported \<^verbatim>\<open>numpy.matlib\<close>, every call with a
  scalar time for which the interpolating callable returns raises \<open>AttributeError\<close>
  before the loop starts, and so does the example of the claim.
\<close>

theorem scalar_time_raises:
  "matrix_callable_from_vector_trajectory False callable_from_trajectory tt x
       unraveled raveled z (Scalar t) =
     (case callable_from_trajectory tt x (Scalar t) of
        Inl e \<Rightarrow> Inl e
      | Inr vector_result \<Rightarrow> Inl AttributeError) \<and>
   matrix_callable_from_vector_trajectory False (\<lambda>tt x t. Inr (Arr1 (flat x))) [0::int]
       \<lparr>nrows = 1, ncols = 3, flat = [1, 2, 3 :: int]\<rparr> (AsList [''a'', ''b'', ''c''])
       \<lparr>nrows = 2, ncols = 2, flat = [''a'', ''b'', ''b'', ''c'']\<rparr> 0 (Scalar 0)
     = Inl AttributeError"
  by (simp add: matrix_callable_from_vector_trajectory_def matrix_callable_raises)

text \<open>
  For a \<open>p \<times> q\<close> raveled layout (with at least one cell) whose symbols are drawn from
  the unraveled order: applied to a sequence of \<open>k > 1\<close> times, for which the
  interpolating callable returns for each symbol the series of its \<open>k\<close> values, the
  callable returns an array of shape \<open>(k, p, q)\<close>, each of whose \<open>k\<close> matrices is the one
  that the scalar case reconstructs from the values at the time of the same position.
  This branch allocates with \<^verbatim>\<open>np.zeros\<close> and does not depend on \<^verbatim>\<open>numpy.matlib\<close>.
\<close>

lemma time_sequence_stacked:
  assumes wf: "wf_matrix raveled" and ne: "0 < nrows raveled" "0 < ncols raveled"
    and drawn: "\<forall>s \<in> set (flat raveled). s \<in> set unraveled"
    and k: "1 < length ts"
    and vc: "vector_callable (Sequence ts) = Inr (Arr2 rows)"
    and n: "length unraveled \<le> length rows"
    and rows: "\<forall>row \<in> set rows. length row = length ts"
  shows "\<exists>Ms. matrix_callable b vector_callable unraveled raveled z (Sequence ts) = Inr (Stacked Ms) \<and>
               length Ms = length ts \<and>
               (\<forall>k < length ts. shape (Ms ! k) = shape raveled \<and> wf_matrix (Ms ! k) \<and>
                  matrix_callable True (\<lambda>t. Inr (Arr1 (map (\<lambda>row. row ! k) rows))) unraveled raveled z
                      (Scalar (ts ! k)) = Inr (Single (Ms ! k)))"
proof -
  let ?Ms = "map (\<lambda>s. matrix_map (\<lambda>sym. rows ! the (index_of unraveled sym) ! s) raveled)
                  [0..<length ts]"
  have res: "matrix_callable b vector_callable unraveled raveled z (Sequence ts) = Inr (Stacked ?Ms)"
    by (rule matrix_callable_stacked[where vc = vector_callable, OF wf ne drawn vc n rows k])
  have slice: "shape (?Ms ! s) = shape raveled \<and> wf_matrix (?Ms ! s) \<and>
        matrix_callable True (\<lambda>t. Inr (Arr1 (map (\<lambda>row. row ! s) rows))) unraveled raveled z
            (Scalar (ts ! s)) = Inr (Single (?Ms ! s))" if s: "s < length ts" for s
  proof -
    let ?vs = "map (\<lambda>row. row ! s) rows"
    have le: "length unraveled \<le> length ?vs" using n by simp
    have "matrix_callable True (\<lambda>t. Inr (Arr1 ?vs)) unraveled raveled z (Scalar (ts ! s)) =
            Inr (Single (matrix_map (\<lambda>sym. ?vs ! the (index_of unraveled sym)) raveled))"
      by (rule matrix_callable_single[where vc = "\<lambda>t. Inr (Arr1 ?vs)", OF wf ne drawn _ le])
        simp_all
    moreover have "matrix_map (\<lambda>sym. ?vs ! the (index_of unraveled sym)) raveled = ?Ms ! s"
    proof -
      have "?vs ! the (index_of unraveled sym) = rows ! the (index_of unraveled sym) ! s"
        if "sym \<in> set (flat raveled)" for sym
      proof -
        from that drawn have "sym \<in> set unraveled" by simp
        from index_of_mem[OF this] obtain idx where idx: "index_of unraveled sym = Some idx" by blast
        from index_of_Some[OF idx] n have "idx < length rows" by simp
        then show ?thesis using idx by simp
      qed
      then show ?thesis using s by (simp add: matrix_map_def)
    qed
    moreover have "shape (?Ms ! s) = shape raveled" "wf_matrix (?Ms ! s)"
      using s wf by (simp_all add: shape_def matrix_map_def wf_matrix_def)
    ultimately show ?thesis by simp
  qed
  show ?thesis
    using res slice by (intro exI[of _ ?Ms]) simp
qed

text \<open>Two times and three symbols: the stack of two matrices.\<close>

lemma time_sequence_example:
  "matrix_callable b (\<lambda>t. Inr (Arr2 [[1, 10], [2, 20], [3, 30 :: int]]))
       [''a'', ''b'', ''c''] \<lparr>nrows = 2, ncols = 2, flat = [''a'', ''b'', ''b'', ''c'']\<rparr> 0
       (Sequence [0 :: int, 1])
     = Inr (Stacked [\<lparr>nrows = 2, ncols = 2, flat = [1, 2, 2, 3]\<rparr>,
                     \<lparr>nrows = 2, ncols = 2, flat = [10, 20, 20, 30]\<rparr>])"
  by (simp add: matrix_callable_def
      nditer_def shape_def zeros_def getitem2_def setitem2_def numeral_2_eq_2 upt_rec)

text \<open>
  With \<^verbatim>\<open>numpy.matlib\<close> imported, a sequence of one time is handled by the branch of
  the scalar time, on what the interpolating callable returns for that sequence; when
  that is one row per symbol, each with the one value, the result is one \<open>p \<times> q\<close>
  matrix of the looked-up values, not a stack.
\<close>

lemma one_time_with_matlib:
  assumes wf: "wf_matrix raveled" and ne: "0 < nrows raveled" "0 < ncols raveled"
    and drawn: "\<forall>s \<in> set (flat raveled). s \<in> set unraveled"
    and vc: "vector_callable (Sequence [t0]) = Inr (Arr2 rows)"
    and n: "length unraveled \<le> length rows"
    and rows: "\<forall>row \<in> set rows. length row = 1"
  shows "matrix_callable True vector_callable unraveled raveled z (Sequence [t0]) =
           Inr (Single (matrix_map (\<lambda>s. hd (rows ! the (index_of unraveled s))) raveled))"
proof -
  let ?vs = "map hd rows"
  have le: "length unraveled \<le> length ?vs" using n by simp
  from nditer_nonempty[OF ne] obtain cells where cells: "nditer raveled = Inr cells" by blast
  have "matrix_callable True vector_callable unraveled raveled z (Sequence [t0]) =
          matrix_callable True (\<lambda>t. Inr (Arr1 ?vs)) unraveled raveled z (Scalar t0)"
    using vc cells fill_Single_column[OF rows]
    by (simp add: matrix_callable_def matlib_zeros_def)
  also have "\<dots> = Inr (Single (matrix_map (\<lambda>s. ?vs ! the (index_of unraveled s)) raveled))"
    by (rule matrix_callable_single[where vc = "\<lambda>t. Inr (Arr1 ?vs)", OF wf ne drawn _ le])
      simp_all
  also have "matrix_map (\<lambda>s. ?vs ! the (index_of unraveled s)) raveled =
             matrix_map (\<lambda>s. hd (rows ! the (index_of unraveled s))) raveled"
  proof -
    have "?vs ! the (index_of unraveled s) = hd (rows ! the (index_of unraveled s))"
      if "s \<in> set (flat raveled)" for s
    proof -
      from that drawn have "s \<in> set unraveled" by simp
      from index_of_mem[OF this] obtain idx where idx: "index_of unraveled s = Some idx" by blast
      from index_of_Some[OF idx] n have "idx < length rows" by simp
      then show ?thesis using idx by simp
    qed
    then show ?thesis by (simp add: matrix_map_def)
  qed
  finally show ?thesis .
qed

text \<open>
  Claim C4 says that a sequence of \<open>k > 1\<close> times gives a \<open>k \<times> p \<times> q\<close> stack, and that a
  sequence of exactly one time follows the scalar case and returns a single \<open>p \<times> q\<close>
  matrix. The first half holds (\<open>time_sequence_stacked\<close>). A sequence of one time does
  follow the scalar case, and with it reaches \<^verbatim>\<open>np.matlib.zeros\<close>, which the module
  never imports: unless another module has imported \<^verbatim>\<open>numpy.matlib\<close>, the call raises
  \<open>AttributeError\<close> where the claim has it return a matrix.
\<close>

theorem one_time_sequence_raises:
  "matrix_callable False vector_callable unraveled raveled z (Sequence [t0]) =
     (case vector_callable (Sequence [t0]) of
        Inl e \<Rightarrow> Inl e
      | Inr vector_result \<Rightarrow> Inl AttributeError) \<and>
   matrix_callable False (\<lambda>t. Inr (Arr2 [[1], [2], [3 :: int]]))
       [''a'', ''b'', ''c''] \<lparr>nrows = 2, ncols = 2, flat = [''a'', ''b'', ''b'', ''c'']\<rparr> 0
       (Sequence [0 :: int])
     = Inl AttributeError"
  by (simp add: matrix_callable_raises)

text \<open>
  When the interpolating callable has returned and some symbol of the raveled layout is
  absent from the unraveled order, the call fails and returns no result. The exception
  is the \<open>NotInList\<close> error of the lookup (the symbol-not-found error) when the loop is
  reached, which is so for more than one time, or with \<^verbatim>\<open>numpy.matlib\<close> imported,
  and the vector result has the form the loop body expects for the symbols of the
  unraveled order. When every symbol of the layout occurs in the unraveled order, the
  call does not fail with that error.
\<close>

lemma absent_symbol_fails:
  assumes wf: "wf_matrix raveled"
    and vc: "vector_callable t = Inr vector_result"
  shows "((\<exists>s \<in> set (flat raveled). s \<notin> set unraveled) \<longrightarrow>
            (\<exists>e. matrix_callable b vector_callable unraveled raveled z t = Inl e) \<and>
            ((as_array t \<or> b) \<and> well_shaped t (length unraveled) vector_result \<longrightarrow>
               matrix_callable b vector_callable unraveled raveled z t = Inl NotInList)) \<and>
         ((\<forall>s \<in> set (flat raveled). s \<in> set unraveled) \<longrightarrow>
            matrix_callable b vector_callable unraveled raveled z t \<noteq> Inl NotInList)"
proof (intro conjI impI)
  assume absent: "\<exists>s \<in> set (flat raveled). s \<notin> set unraveled"
  then obtain s where s: "s \<in> set (flat raveled)" "s \<notin> set unraveled" by blast
  then have "length (flat raveled) \<noteq> 0" by auto
  then have "nrows raveled * ncols raveled \<noteq> 0" using wf unfolding wf_matrix_def by simp
  then obtain cells where cells: "nditer raveled = Inr cells" by (auto simp: nditer_def)
  from entry_has_cell[OF wf cells s(1)] s(2)
  have cell: "\<exists>(i, j) \<in> set cells. flat raveled ! (i * ncols raveled + j) \<notin> set unraveled"
    by auto
  note rng = cells_in_range[OF cells]
  show "\<exists>e. matrix_callable b vector_callable unraveled raveled z t = Inl e"
  proof (cases "initial_result b z t (shape raveled)")
    case (Inl e)
    with vc show ?thesis by (simp add: matrix_callable_def)
  next
    case (Inr res)
    with fill_fails_absent[OF rng cell, of vector_result res] vc cells show ?thesis
      by (simp add: matrix_callable_def)
  qed
  show "matrix_callable b vector_callable unraveled raveled z t = Inl NotInList"
    if reach: "(as_array t \<or> b) \<and> well_shaped t (length unraveled) vector_result"
  proof (cases vector_result)
    case (Arr0 v)
    with reach show ?thesis by (simp add: well_shaped_def)
  next
    case (Arr1 vs)
    with reach have t: "\<not> as_array t" and n: "length unraveled \<le> length vs"
      by (simp_all add: well_shaped_def)
    with reach have b: "b = True" by simp
    show ?thesis
      using fill_Single_NotInList[OF rng n cell] vc cells Arr1 t
      by (simp add: matrix_callable_def shape_def initial_result_single b)
  next
    case (Arr2 rows)
    with reach obtain ts where ts: "t = Sequence ts" "1 < length ts"
      and n: "length unraveled \<le> length rows"
      and rows: "\<forall>row \<in> set rows. length row = length ts"
      by (cases t) (auto simp: well_shaped_def list_all_iff)
    let ?Ms = "replicate (length ts) (zeros z (nrows raveled) (ncols raveled))"
    have rows': "\<forall>row \<in> set rows. length row = length ?Ms" using rows by simp
    show ?thesis
      using fill_Stacked_NotInList[OF rng n rows' cell] vc cells Arr2 ts
      by (simp add: matrix_callable_def shape_def)
  qed
next
  assume present: "\<forall>s \<in> set (flat raveled). s \<in> set unraveled"
  show "matrix_callable b vector_callable unraveled raveled z t \<noteq> Inl NotInList"
  proof (cases "initial_result b z t (shape raveled)")
    case (Inl e)
    with initial_result_not_NotInList[of b z t "shape raveled"] have "e \<noteq> NotInList" by auto
    with Inl vc show ?thesis by (simp add: matrix_callable_def)
  next
    case res: (Inr res)
    show ?thesis
    proof (cases "nditer raveled")
      case (Inl e)
      then have "e = ZeroSizedOperand" by (auto simp: nditer_def split: if_splits)
      with Inl vc res show ?thesis by (simp add: matrix_callable_def)
    next
      case (Inr cells)
      have "\<forall>(i, j) \<in> set cells. i < nrows raveled \<and> j < ncols raveled \<and>
              flat raveled ! (i * ncols raveled + j) \<in> set unraveled"
        using cells_in_range[OF Inr] present flat_nth_mem[OF wf] by auto
      from fill_present_no_NotInList[OF this] show ?thesis
        using vc Inr res by (simp add: matrix_callable_def)
    qed
  qed
qed

text \<open>
  For two times the layout \<open>[[a, d]]\<close> against the order \<open>[a, b, c]\<close> fails with
  \<open>NotInList\<close>, whether \<^verbatim>\<open>numpy.matlib\<close> is imported or not.
\<close>

lemma absent_symbol_example:
  "matrix_callable b (\<lambda>t. Inr (Arr2 [[1, 10], [2, 20], [3, 30 :: int]])) [''a'', ''b'', ''c'']
       \<lparr>nrows = 1, ncols = 2, flat = [''a'', ''d'']\<rparr> 0 (Sequence [0 :: int, 1]) = Inl NotInList"
  by (simp add: matrix_callable_def
      nditer_def shape_def zeros_def getitem2_def setitem2_def numeral_2_eq_2 upt_rec)

text \<open>
  Claim C6 says that every call in which a symbol of the raveled layout is absent from
  the unraveled order fails with the symbol-not-found error of the lookup. For a scalar
  time the lookup comes after the allocation by \<^verbatim>\<open>np.matlib.zeros\<close>, which the module
  never imports: unless another module has imported \<^verbatim>\<open>numpy.matlib\<close>, the call with
  the layout \<open>[[a, d]]\<close> and the order \<open>[a, b, c]\<close> raises \<open>AttributeError\<close> and the
  lookup of \<open>d\<close> is never made.
\<close>

theorem absent_symbol_scalar_raises:
  "''d'' \<in> set (flat \<lparr>nrows = 1, ncols = 2, flat = [''a'', ''d'']\<rparr>) \<and>
   ''d'' \<notin> set [''a'', ''b'', ''c''] \<and>
   matrix_callable False (\<lambda>t. Inr (Arr1 [1, 2, 3 :: int])) [''a'', ''b'', ''c'']
       \<lparr>nrows = 1, ncols = 2, flat = [''a'', ''d'']\<rparr> 0 (Scalar (0::int)) = Inl AttributeError \<and>
   matrix_callable False (\<lambda>t. Inr (Arr1 [1, 2, 3 :: int])) [''a'', ''b'', ''c'']
       \<lparr>nrows = 1, ncols = 2, flat = [''a'', ''d'']\<rparr> 0 (Scalar (0::int)) \<noteq> Inl NotInList"
  by (simp add: matrix_callable_raises)

section \<open>Claims about \<open>system_from_matrix_DE\<close>\<close>

text \<open>
  Claim C2. For \<open>mat_DE\<close> and \<open>mat_var\<close> of equal shape (with at least one cell), and
  whatever order the set iterates in, \<open>system_from_matrix_DE\<close> returns a system whose
  state vector lists the distinct entries of \<open>mat_var\<close>, so its length and the length of
  the derivative vector are the number of distinct symbols of \<open>mat_var\<close>. When \<open>mat_var\<close>
  holds each symbol exactly once, the derivative vector at position \<open>idx\<close> is the entry
  of \<open>mat_DE\<close> at the cell where \<open>mat_var\<close> holds the \<open>idx\<close>-th symbol of the state vector,
  and for every cell the entry of \<open>mat_DE\<close> stands at the position of the cell's symbol.
\<close>

theorem converter_roundtrip:
  assumes order: "set_iteration list_of_set"
    and wf: "wf_matrix mat_DE" "wf_matrix mat_var"
    and shp: "shape mat_DE = shape mat_var"
    and ne: "0 < nrows mat_var" "0 < ncols mat_var"
  shows "\<exists>sys. system_from_matrix_DE list_of_set mat_DE mat_var mat_input constants = Inr sys \<and>
           distinct (flat (state sys)) \<and> set (flat (state sys)) = set (flat mat_var) \<and>
           length (flat (state sys)) = card (set (flat mat_var)) \<and>
           nrows (state_equation sys) = card (set (flat mat_var)) \<and>
           ncols (state_equation sys) = 1 \<and>
           length (flat (state_equation sys)) = card (set (flat mat_var)) \<and>
           (distinct (flat mat_var) \<longrightarrow>
              (\<forall>idx < length (flat (state sys)). \<exists>i j. i < nrows mat_var \<and> j < ncols mat_var \<and>
                  getitem2 mat_var i j = Inr (flat (state sys) ! idx) \<and>
                  getitem2 mat_DE i j = Inr (flat (state_equation sys) ! idx)) \<and>
              (\<forall>i < nrows mat_var. \<forall>j < ncols mat_var. \<exists>s idx.
                  getitem2 mat_var i j = Inr s \<and>
                  index_of (flat (state sys)) s = Some idx \<and>
                  getitem2 mat_DE i j = Inr (flat (state_equation sys) ! idx)))"
proof -
  let ?vv = "list_of_set (flat mat_var)"
  let ?fm = "flat mat_var"
  let ?p = "nrows mat_var" and ?q = "ncols mat_var"
  let ?h = "\<lambda>k. the (index_of ?vv (?fm ! k))"
  let ?de = "\<lambda>k. flat mat_DE ! k"
  have dims: "nrows mat_DE = ?p" "ncols mat_DE = ?q" using shp by (simp_all add: shape_def)
  have vv: "distinct ?vv" "set ?vv = set ?fm" using order by (simp_all add: set_iteration_def)
  have card: "length ?vv = card (set ?fm)" using vv distinct_card[of ?vv] by simp
  have len: "length ?fm = ?p * ?q" using wf(2) by (simp add: wf_matrix_def)
  from system_from_matrix_DE_result[OF order wf(2), of mat_DE mat_input constants] ne dims
  obtain V where V: "system_from_matrix_DE list_of_set mat_DE mat_var mat_input constants =
           Inr (DynamicalSystem V (Matrix_of_list ?vv) mat_input constants)"
    "nrows V = length ?vv" "ncols V = 1"
    "flat V = fold (\<lambda>(i, j) ys. ys[?h (i * ?q + j) := ?de (i * ?q + j)])
                (concat (map (\<lambda>i. map (\<lambda>j. (i, j)) [0..<?q]) [0..<?p]))
                (replicate (length ?vv) (Integer 0))"
    by auto
  have flatV: "flat V = fold (\<lambda>k ys. ys[?h k := ?de k]) [0..<?p * ?q]
                (replicate (length ?vv) (Integer 0))"
    unfolding V(4)
    using fold_cells_positions[of "\<lambda>k ys. ys[?h k := ?de k]" ?q]
    by (simp add: cell_positions)
  let ?sys = "DynamicalSystem V (Matrix_of_list ?vv) mat_input constants"
  have st: "flat (state ?sys) = ?vv" "state_equation ?sys = V"
    by (simp_all add: DynamicalSystem_def Matrix_of_list_def)
  have lenV: "length (flat V) = length ?vv"
    unfolding flatV by (simp add: fold_update_length)
  have trip: "(\<forall>idx < length ?vv. \<exists>i j. i < ?p \<and> j < ?q \<and>
                  getitem2 mat_var i j = Inr (?vv ! idx) \<and>
                  getitem2 mat_DE i j = Inr (flat V ! idx)) \<and>
              (\<forall>i < ?p. \<forall>j < ?q. \<exists>s idx.
                  getitem2 mat_var i j = Inr s \<and>
                  index_of ?vv s = Some idx \<and>
                  getitem2 mat_DE i j = Inr (flat V ! idx))" if dfm: "distinct ?fm"
  proof (intro conjI allI impI)
    fix idx assume "idx < length ?vv"
    with placed_entries(3)[OF vv dfm len, where de = ?de and z = "Integer 0"] flatV
    obtain k where k: "k < ?p * ?q" "?fm ! k = ?vv ! idx" "flat V ! idx = ?de k" by auto
    then have q: "0 < ?q" by (cases ?q) auto
    let ?i = "k div ?q" and ?j = "k mod ?q"
    have ij: "?i < ?p" "?j < ?q" "?i * ?q + ?j = k"
      using k(1) q by (simp_all add: less_mult_imp_div_less)
    have "getitem2 mat_var ?i ?j = Inr (?vv ! idx)"
      using ij k by (simp add: getitem2_def)
    moreover have "getitem2 mat_DE ?i ?j = Inr (flat V ! idx)"
      using ij k dims by (simp add: getitem2_def)
    ultimately show "\<exists>i j. i < ?p \<and> j < ?q \<and>
                  getitem2 mat_var i j = Inr (?vv ! idx) \<and>
                  getitem2 mat_DE i j = Inr (flat V ! idx)"
      using ij by blast
  next
    fix i j assume ij: "i < ?p" "j < ?q"
    then have k: "i * ?q + j < ?p * ?q" by (rule cell_in_range)
    with placed_entries(2)[OF vv dfm len, where de = ?de and z = "Integer 0"] flatV
    have "index_of ?vv (?fm ! (i * ?q + j)) = Some (?h (i * ?q + j))"
      "flat V ! ?h (i * ?q + j) = ?de (i * ?q + j)" by auto
    moreover have "getitem2 mat_var i j = Inr (?fm ! (i * ?q + j))"
      "getitem2 mat_DE i j = Inr (?de (i * ?q + j))"
      using ij dims by (simp_all add: getitem2_def)
    ultimately show "\<exists>s idx. getitem2 mat_var i j = Inr s \<and>
                  index_of ?vv s = Some idx \<and>
                  getitem2 mat_DE i j = Inr (flat V ! idx)"
      by (intro exI[of _ "?fm ! (i * ?q + j)"] exI[of _ "?h (i * ?q + j)"]) simp
  qed
  show ?thesis
    using V(1,2,3) vv card lenV trip
    by (intro exI[of _ ?sys]) (simp add: st)
qed

text \<open>
  Four distinct symbols, with the set iterating in reverse: every expression follows its
  symbol. A symmetric \<open>mat_var\<close> with one symbol at two cells: three state variables.
\<close>

theorem converter_roundtrip_witness:
  "set_iteration (\<lambda>xs :: expr list. rev (remdups xs)) \<and>
   wf_matrix \<lparr>nrows = 2, ncols = 2, flat = [Compound ''f'' [], Compound ''g'' [], Compound ''h'' [], Compound ''k'' []]\<rparr> \<and>
   wf_matrix \<lparr>nrows = 2, ncols = 2, flat = [Symbol ''a'' [], Symbol ''b'' [], Symbol ''c'' [], Symbol ''d'' []]\<rparr> \<and>
   distinct [Symbol ''a'' [], Symbol ''b'' [], Symbol ''c'' [], Symbol ''d'' []] \<and>
   system_from_matrix_DE (\<lambda>xs. rev (remdups xs))
       \<lparr>nrows = 2, ncols = 2, flat = [Compound ''f'' [], Compound ''g'' [], Compound ''h'' [], Compound ''k'' []]\<rparr>
       \<lparr>nrows = 2, ncols = 2, flat = [Symbol ''a'' [], Symbol ''b'' [], Symbol ''c'' [], Symbol ''d'' []]\<rparr>
       \<lparr>nrows = 0, ncols = 0, flat = []\<rparr> []
     = Inr \<lparr>state_equation = \<lparr>nrows = 4, ncols = 1,
                flat = [Compound ''k'' [], Compound ''h'' [], Compound ''g'' [], Compound ''f'' []]\<rparr>,
            state = \<lparr>nrows = 4, ncols = 1,
                flat = [Symbol ''d'' [], Symbol ''c'' [], Symbol ''b'' [], Symbol ''a'' []]\<rparr>,
            input = \<lparr>nrows = 0, ncols = 0, flat = []\<rparr>, constants_values = []\<rparr> \<and>
   wf_matrix \<lparr>nrows = 2, ncols = 2, flat = [Symbol ''a'' [], Symbol ''b'' [], Symbol ''b'' [], Symbol ''c'' []]\<rparr> \<and>
   card (set [Symbol ''a'' [], Symbol ''b'' [], Symbol ''b'' [], Symbol ''c'' []]) = 3 \<and>
   system_from_matrix_DE (\<lambda>xs. rev (remdups xs))
       \<lparr>nrows = 2, ncols = 2, flat = [Compound ''f'' [], Compound ''g'' [], Compound ''g'' [], Compound ''k'' []]\<rparr>
       \<lparr>nrows = 2, ncols = 2, flat = [Symbol ''a'' [], Symbol ''b'' [], Symbol ''b'' [], Symbol ''c'' []]\<rparr>
       \<lparr>nrows = 0, ncols = 0, flat = []\<rparr> []
     = Inr \<lparr>state_equation = \<lparr>nrows = 3, ncols = 1,
                flat = [Compound ''k'' [], Compound ''g'' [], Compound ''f'' []]\<rparr>,
            state = \<lparr>nrows = 3, ncols = 1,
                flat = [Symbol ''c'' [], Symbol ''b'' [], Symbol ''a'' []]\<rparr>,
            input = \<lparr>nrows = 0, ncols = 0, flat = []\<rparr>, constants_values = []\<rparr>"
proof -
  have order: "set_iteration (\<lambda>xs :: expr list. rev (remdups xs))"
    by (simp add: set_iteration_def)
  have ev1: "system_from_matrix_DE (\<lambda>xs. rev (remdups xs))
       \<lparr>nrows = 2, ncols = 2, flat = [Compound ''f'' [], Compound ''g'' [], Compound ''h'' [], Compound ''k'' []]\<rparr>
       \<lparr>nrows = 2, ncols = 2, flat = [Symbol ''a'' [], Symbol ''b'' [], Symbol ''c'' [], Symbol ''d'' []]\<rparr>
       \<lparr>nrows = 0, ncols = 0, flat = []\<rparr> []
     = Inr \<lparr>state_equation = \<lparr>nrows = 4, ncols = 1,
                flat = [Compound ''k'' [], Compound ''h'' [], Compound ''g'' [], Compound ''f'' []]\<rparr>,
            state = \<lparr>nrows = 4, ncols = 1,
                flat = [Symbol ''d'' [], Symbol ''c'' [], Symbol ''b'' [], Symbol ''a'' []]\<rparr>,
            input = \<lparr>nrows = 0, ncols = 0, flat = []\<rparr>, constants_values = []\<rparr>"
    by (simp add: system_from_matrix_DE_def nditer_def tolist_def flatten_def zeros_def
        getitem2_def setitem_flat_def DynamicalSystem_def Matrix_of_list_def
        numeral_2_eq_2 upt_rec)
  have ev2: "system_from_matrix_DE (\<lambda>xs. rev (remdups xs))
       \<lparr>nrows = 2, ncols = 2, flat = [Compound ''f'' [], Compound ''g'' [], Compound ''g'' [], Compound ''k'' []]\<rparr>
       \<lparr>nrows = 2, ncols = 2, flat = [Symbol ''a'' [], Symbol ''b'' [], Symbol ''b'' [], Symbol ''c'' []]\<rparr>
       \<lparr>nrows = 0, ncols = 0, flat = []\<rparr> []
     = Inr \<lparr>state_equation = \<lparr>nrows = 3, ncols = 1,
                flat = [Compound ''k'' [], Compound ''g'' [], Compound ''f'' []]\<rparr>,
            state = \<lparr>nrows = 3, ncols = 1,
                flat = [Symbol ''c'' [], Symbol ''b'' [], Symbol ''a'' []]\<rparr>,
            input = \<lparr>nrows = 0, ncols = 0, flat = []\<rparr>, constants_values = []\<rparr>"
    by (simp add: system_from_matrix_DE_def nditer_def tolist_def flatten_def zeros_def
        getitem2_def setitem_flat_def DynamicalSystem_def Matrix_of_list_def
        numeral_2_eq_2 upt_rec)
  have wfs: "wf_matrix \<lparr>nrows = 2, ncols = 2, flat = [Compound ''f'' [], Compound ''g'' [], Compound ''h'' [], Compound ''k'' []]\<rparr>"
    "wf_matrix \<lparr>nrows = 2, ncols = 2, flat = [Symbol ''a'' [], Symbol ''b'' [], Symbol ''c'' [], Symbol ''d'' []]\<rparr>"
    "wf_matrix \<lparr>nrows = 2, ncols = 2, flat = [Symbol ''a'' [], Symbol ''b'' [], Symbol ''b'' [], Symbol ''c'' []]\<rparr>"
    "wf_matrix \<lparr>nrows = 2, ncols = 2, flat = [Compound ''f'' [], Compound ''g'' [], Compound ''g'' [], Compound ''k'' []]\<rparr>"
    by (simp_all add: wf_matrix_def)
  have c3: "card (set [Symbol ''a'' [], Symbol ''b'' [], Symbol ''b'' [], Symbol ''c'' []]) = 3"
    by simp
  from converter_roundtrip[OF order wfs(1) wfs(2), of "\<lparr>nrows = 0, ncols = 0, flat = []\<rparr>" "[]"]
    converter_roundtrip[OF order wfs(4) wfs(3), of "\<lparr>nrows = 0, ncols = 0, flat = []\<rparr>" "[]"]
    order ev1 ev2 wfs c3
  show ?thesis by (simp add: shape_def)
qed

text \<open>
  Claim C3 says that \<open>system_from_matrix_DE\<close> fails whenever the shapes of \<open>mat_DE\<close> and
  \<open>mat_var\<close> differ. The function compares no shapes: with a \<open>1 \<times> 1\<close> \<open>mat_DE\<close> and a
  \<open>1 \<times> 2\<close> \<open>mat_var\<close> it returns a system with two state variables, the second
  derivative left at zero.
\<close>

theorem shape_mismatch_counterexample:
  "set_iteration (remdups :: expr list \<Rightarrow> expr list) \<and>
   wf_matrix \<lparr>nrows = 1, ncols = 1, flat = [Compound ''f'' []]\<rparr> \<and>
   wf_matrix \<lparr>nrows = 1, ncols = 2, flat = [Symbol ''x'' [], Symbol ''y'' []]\<rparr> \<and>
   shape \<lparr>nrows = 1, ncols = 1, flat = [Compound ''f'' []]\<rparr>
     \<noteq> shape \<lparr>nrows = 1, ncols = 2, flat = [Symbol ''x'' [], Symbol ''y'' []]\<rparr> \<and>
   system_from_matrix_DE remdups
       \<lparr>nrows = 1, ncols = 1, flat = [Compound ''f'' []]\<rparr>
       \<lparr>nrows = 1, ncols = 2, flat = [Symbol ''x'' [], Symbol ''y'' []]\<rparr>
       \<lparr>nrows = 0, ncols = 0, flat = []\<rparr> []
     = Inr \<lparr>state_equation = \<lparr>nrows = 2, ncols = 1, flat = [Compound ''f'' [], Integer 0]\<rparr>,
            state = \<lparr>nrows = 2, ncols = 1, flat = [Symbol ''x'' [], Symbol ''y'' []]\<rparr>,
            input = \<lparr>nrows = 0, ncols = 0, flat = []\<rparr>, constants_values = []\<rparr>"
  by (simp add: set_iteration_def wf_matrix_def shape_def
      system_from_matrix_DE_def nditer_def tolist_def flatten_def zeros_def
      getitem2_def setitem_flat_def DynamicalSystem_def Matrix_of_list_def)


text \<open>
  Claim C3, amended. For a \<open>mat_DE\<close> with at least one cell: when \<open>mat_DE\<close> has more rows
  or more columns than \<open>mat_var\<close>, the call fails with the \<open>IndexError\<close> of the read
  \<^verbatim>\<open>mat_var[i, j]\<close> and returns no result; when \<open>mat_DE\<close> has no more rows and no more
  columns than \<open>mat_var\<close>, the call returns a system, whether the shapes are equal or not.
\<close>

theorem shape_mismatch_index_error:
  assumes order: "set_iteration list_of_set"
    and wf: "wf_matrix mat_var"
    and ne: "0 < nrows mat_DE" "0 < ncols mat_DE"
  shows "(nrows mat_var < nrows mat_DE \<or> ncols mat_var < ncols mat_DE \<longrightarrow>
            system_from_matrix_DE list_of_set mat_DE mat_var mat_input constants = Inl IndexError) \<and>
         (nrows mat_DE \<le> nrows mat_var \<and> ncols mat_DE \<le> ncols mat_var \<longrightarrow>
            (\<exists>sys. system_from_matrix_DE list_of_set mat_DE mat_var mat_input constants = Inr sys))"
proof (intro conjI impI)
  assume out: "nrows mat_var < nrows mat_DE \<or> ncols mat_var < ncols mat_DE"
  let ?vv = "list_of_set (flat mat_var)"
  from nditer_nonempty[OF ne] obtain cells where cells: "nditer mat_DE = Inr cells" by blast
  have vv: "set ?vv = set (flat mat_var)" using order by (simp add: set_iteration_def)
  note rng = cells_in_range[OF cells]
  have mem: "\<forall>(i, j) \<in> set cells. i < nrows mat_var \<and> j < ncols mat_var \<longrightarrow>
           flat mat_var ! (i * ncols mat_var + j) \<in> set ?vv"
    using flat_nth_mem[OF wf] vv by auto
  have "(nrows mat_var, 0) \<in> set cells \<or> (0, ncols mat_var) \<in> set cells"
    using out ne nditer_cells[OF cells] by auto
  then have bad: "\<exists>(i, j) \<in> set cells. \<not> (i < nrows mat_var \<and> j < ncols mat_var)"
    by auto
  show "system_from_matrix_DE list_of_set mat_DE mat_var mat_input constants = Inl IndexError"
    using place_IndexError[OF rng mem bad] cells wf
    by (simp add: system_from_matrix_DE_def flatten_tolist Let_def)
next
  assume "nrows mat_DE \<le> nrows mat_var \<and> ncols mat_DE \<le> ncols mat_var"
  then have fits: "nrows mat_DE \<le> nrows mat_var" "ncols mat_DE \<le> ncols mat_var" by simp_all
  from system_from_matrix_DE_result[OF order wf ne fits, of mat_input constants]
  show "\<exists>sys. system_from_matrix_DE list_of_set mat_DE mat_var mat_input constants = Inr sys"
    by blast
qed


text \<open>A \<open>1 \<times> 2\<close> \<open>mat_DE\<close> over a \<open>1 \<times> 1\<close> \<open>mat_var\<close> fails; the converse returns.\<close>

theorem shape_mismatch_index_error_witness:
  "set_iteration (remdups :: expr list \<Rightarrow> expr list) \<and>
   wf_matrix \<lparr>nrows = 1, ncols = 1, flat = [Symbol ''x'' []]\<rparr> \<and>
   system_from_matrix_DE remdups
       \<lparr>nrows = 1, ncols = 2, flat = [Compound ''f'' [], Compound ''g'' []]\<rparr>
       \<lparr>nrows = 1, ncols = 1, flat = [Symbol ''x'' []]\<rparr>
       \<lparr>nrows = 0, ncols = 0, flat = []\<rparr> [] = Inl IndexError \<and>
   wf_matrix \<lparr>nrows = 1, ncols = 2, flat = [Symbol ''x'' [], Symbol ''y'' []]\<rparr> \<and>
   (\<exists>sys. system_from_matrix_DE remdups
       \<lparr>nrows = 1, ncols = 1, flat = [Compound ''f'' []]\<rparr>
       \<lparr>nrows = 1, ncols = 2, flat = [Symbol ''x'' [], Symbol ''y'' []]\<rparr>
       \<lparr>nrows = 0, ncols = 0, flat = []\<rparr> [] = Inr sys)"
proof -
  have order: "set_iteration (remdups :: expr list \<Rightarrow> expr list)"
    by (simp add: set_iteration_def)
  have wfs: "wf_matrix \<lparr>nrows = 1, ncols = 1, flat = [Symbol ''x'' []]\<rparr>"
    "wf_matrix \<lparr>nrows = 1, ncols = 2, flat = [Symbol ''x'' [], Symbol ''y'' []]\<rparr>"
    by (simp_all add: wf_matrix_def)
  from shape_mismatch_index_error[OF order wfs(1),
      of "\<lparr>nrows = 1, ncols = 2, flat = [Compound ''f'' [], Compound ''g'' []]\<rparr>"
         "\<lparr>nrows = 0, ncols = 0, flat = []\<rparr>" "[]"]
    shape_mismatch_index_error[OF order wfs(2),
      of "\<lparr>nrows = 1, ncols = 1, flat = [Compound ''f'' []]\<rparr>"
         "\<lparr>nrows = 0, ncols = 0, flat = []\<rparr>" "[]"]
    order wfs
  show ?thesis by simp
qed


text \<open>
  Claim C10. For \<open>mat_DE\<close> and \<open>mat_var\<close> of equal shape, at every cell that the loop
  visits the read of \<open>mat_var\<close> is in range and the lookup of its entry in the list of
  state variables finds a position in that list; the call never fails with the
  \<open>NotInList\<close> error of the lookup (nor with an \<open>IndexError\<close>), and with at least one
  cell it returns a system.
\<close>

theorem lookup_always_succeeds:
  assumes order: "set_iteration list_of_set"
    and wf: "wf_matrix mat_var"
    and shp: "shape mat_DE = shape mat_var"
  shows "(\<forall>i < nrows mat_DE. \<forall>j < ncols mat_DE. \<exists>s idx.
            getitem2 mat_var i j = Inr s \<and>
            index_of (list_of_set (flatten (tolist mat_var))) s = Some idx \<and>
            idx < length (list_of_set (flatten (tolist mat_var)))) \<and>
         system_from_matrix_DE list_of_set mat_DE mat_var mat_input constants \<noteq> Inl NotInList \<and>
         system_from_matrix_DE list_of_set mat_DE mat_var mat_input constants \<noteq> Inl IndexError \<and>
         (0 < nrows mat_DE \<and> 0 < ncols mat_DE \<longrightarrow>
            (\<exists>sys. system_from_matrix_DE list_of_set mat_DE mat_var mat_input constants = Inr sys))"
proof -
  let ?vv = "list_of_set (flatten (tolist mat_var))"
  let ?res = "system_from_matrix_DE list_of_set mat_DE mat_var mat_input constants"
  have dims: "nrows mat_DE = nrows mat_var" "ncols mat_DE = ncols mat_var"
    using shp by (simp_all add: shape_def)
  have vv: "set ?vv = set (flat mat_var)"
    using order wf by (simp add: set_iteration_def flatten_tolist)
  have look: "\<exists>s idx. getitem2 mat_var i j = Inr s \<and> index_of ?vv s = Some idx \<and> idx < length ?vv"
    if ij: "i < nrows mat_DE" "j < ncols mat_DE" for i j
  proof -
    from ij dims have var: "i < nrows mat_var" "j < ncols mat_var" by simp_all
    from flat_nth_mem[OF wf var] vv have "flat mat_var ! (i * ncols mat_var + j) \<in> set ?vv"
      by simp
    from index_of_mem[OF this] obtain idx where
      idx: "index_of ?vv (flat mat_var ! (i * ncols mat_var + j)) = Some idx" by blast
    from index_of_Some[OF idx] idx var show ?thesis by (simp add: getitem2_in_range)
  qed
  have ok: "\<exists>sys. ?res = Inr sys" if ne: "0 < nrows mat_DE" "0 < ncols mat_DE"
    using system_from_matrix_DE_result[OF order wf ne, of mat_input constants] dims by auto
  have "?res \<noteq> Inl NotInList \<and> ?res \<noteq> Inl IndexError"
  proof (cases "0 < nrows mat_DE \<and> 0 < ncols mat_DE")
    case True
    with ok show ?thesis by auto
  next
    case False
    then have "?res = Inl ZeroSizedOperand"
      by (auto simp: system_from_matrix_DE_def nditer_def Let_def)
    then show ?thesis by simp
  qed
  with look ok show ?thesis by blast
qed


text \<open>A symmetric \<open>mat_var\<close>, whose symbol \<open>b\<close> is looked up twice.\<close>

theorem lookup_always_succeeds_witness:
  "set_iteration (remdups :: expr list \<Rightarrow> expr list) \<and>
   wf_matrix \<lparr>nrows = 2, ncols = 2, flat = [Symbol ''a'' [], Symbol ''b'' [], Symbol ''b'' [], Symbol ''c'' []]\<rparr> \<and>
   shape \<lparr>nrows = 2, ncols = 2, flat = [Compound ''f'' [], Compound ''g'' [], Compound ''g'' [], Compound ''k'' []]\<rparr>
     = shape \<lparr>nrows = 2, ncols = 2, flat = [Symbol ''a'' [], Symbol ''b'' [], Symbol ''b'' [], Symbol ''c'' []]\<rparr> \<and>
   system_from_matrix_DE remdups
       \<lparr>nrows = 2, ncols = 2, flat = [Compound ''f'' [], Compound ''g'' [], Compound ''g'' [], Compound ''k'' []]\<rparr>
       \<lparr>nrows = 2, ncols = 2, flat = [Symbol ''a'' [], Symbol ''b'' [], Symbol ''b'' [], Symbol ''c'' []]\<rparr>
       \<lparr>nrows = 0, ncols = 0, flat = []\<rparr> [] \<noteq> Inl NotInList \<and>
   (\<exists>sys. system_from_matrix_DE remdups
       \<lparr>nrows = 2, ncols = 2, flat = [Compound ''f'' [], Compound ''g'' [], Compound ''g'' [], Compound ''k'' []]\<rparr>
       \<lparr>nrows = 2, ncols = 2, flat = [Symbol ''a'' [], Symbol ''b'' [], Symbol ''b'' [], Symbol ''c'' []]\<rparr>
       \<lparr>nrows = 0, ncols = 0, flat = []\<rparr> [] = Inr sys)"
proof -
  have order: "set_iteration (remdups :: expr list \<Rightarrow> expr list)"
    by (simp add: set_iteration_def)
  have wf: "wf_matrix \<lparr>nrows = 2, ncols = 2, flat = [Symbol ''a'' [], Symbol ''b'' [], Symbol ''b'' [], Symbol ''c'' []]\<rparr>"
    by (simp add: wf_matrix_def)
  have shp: "shape \<lparr>nrows = 2, ncols = 2, flat = [Compound ''f'' [], Compound ''g'' [], Compound ''g'' [], Compound ''k'' []]\<rparr>
     = shape \<lparr>nrows = 2, ncols = 2, flat = [Symbol ''a'' [], Symbol ''b'' [], Symbol ''b'' [], Symbol ''c'' []]\<rparr>"
    by (simp add: shape_def)
  from lookup_always_succeeds[OF order wf shp, of "\<lparr>nrows = 0, ncols = 0, flat = []\<rparr>" "[]"]
    order wf shp
  show ?thesis by simp
qed

section \<open>Claims about \<open>matrix_subs\<close>\<close>

text \<open>
  Claim C7 ends with: substituting the result into the symbolic matrix reproduces the
  value matrix at every non-zero position. The pairs are emitted by position and applied
  one after the other, so a symbol that stands at two cells with two values keeps the
  first: for \<open>[[x, x]]\<close> and \<open>[[1, 2]]\<close> the pairs are \<open>(x, 1), (x, 2)\<close> and the
  substitution turns the cell \<open>(0, 1)\<close> into \<open>1\<close>, not \<open>2\<close>.
\<close>

theorem matrix_subs_pair_counterexample:
  "wf_matrix \<lparr>nrows = 1, ncols = 2, flat = [Symbol ''x'' [], Symbol ''x'' []]\<rparr> \<and>
   wf_matrix \<lparr>nrows = 1, ncols = 2, flat = [Integer 1, Integer 2]\<rparr> \<and>
   shape \<lparr>nrows = 1, ncols = 2, flat = [Symbol ''x'' [], Symbol ''x'' []]\<rparr>
     = shape \<lparr>nrows = 1, ncols = 2, flat = [Integer 1, Integer 2]\<rparr> \<and>
   matrix_subs [Mat \<lparr>nrows = 1, ncols = 2, flat = [Symbol ''x'' [], Symbol ''x'' []]\<rparr>,
                Mat \<lparr>nrows = 1, ncols = 2, flat = [Integer 1, Integer 2]\<rparr>]
     = Inr (PairTuple [(Symbol ''x'' [], Integer 1), (Symbol ''x'' [], Integer 2)]) \<and>
   getitem2 \<lparr>nrows = 1, ncols = 2, flat = [Symbol ''x'' [], Symbol ''x'' []]\<rparr> 0 1 = Inr (Symbol ''x'' []) \<and>
   getitem2 \<lparr>nrows = 1, ncols = 2, flat = [Integer 1, Integer 2]\<rparr> 0 1 = Inr (Integer 2) \<and>
   subs [(Symbol ''x'' [], Integer 1), (Symbol ''x'' [], Integer 2)] (Symbol ''x'' []) = Integer 1 \<and>
   subs [(Symbol ''x'' [], Integer 1), (Symbol ''x'' [], Integer 2)] (Symbol ''x'' []) \<noteq> Integer 2"
  by (simp add: wf_matrix_def shape_def matrix_subs_def pairs_of_def cells_of_def
      getitem2_def subs_def subs1.simps numeral_2_eq_2 upt_rec)


text \<open>
  Claim C7, amended. For a symbolic matrix and a value matrix of equal shape,
  \<open>matrix_subs\<close> returns the pairs (entry, value) of the cells whose symbolic entry is not
  zero, in row-major order, and no pair for a cell whose entry is zero; their number is
  the number of entries that are not zero. When these entries are pairwise distinct
  symbols and the values are numbers, substituting the pairs into the symbolic matrix
  gives the value at every cell whose entry is not zero.
\<close>

theorem matrix_subs_pair:
  assumes wf: "wf_matrix A" "wf_matrix V" and shp: "shape A = shape V"
  shows "\<exists>ps. matrix_subs [Mat A, Mat V] = Inr (PairTuple ps) \<and>
           ps = filter nonzero (zip (flat A) (flat V)) \<and>
           length ps = length (filter (\<lambda>s. s \<noteq> Integer 0) (flat A)) \<and>
           (\<forall>i < nrows A. \<forall>j < ncols A. \<exists>s v. getitem2 A i j = Inr s \<and> getitem2 V i j = Inr v \<and>
               ((s, v) \<in> set ps \<longleftrightarrow> s \<noteq> Integer 0)) \<and>
           (distinct (filter (\<lambda>s. s \<noteq> Integer 0) (flat A)) \<and>
            (\<forall>s \<in> set (flat A). s \<noteq> Integer 0 \<longrightarrow> is_symbol s) \<and>
            (\<forall>v \<in> set (flat V). is_number v) \<longrightarrow>
              (\<forall>i < nrows A. \<forall>j < ncols A. \<exists>s v. getitem2 A i j = Inr s \<and> getitem2 V i j = Inr v \<and>
                  (s \<noteq> Integer 0 \<longrightarrow> subs ps s = v)))"
proof -
  let ?ps = "filter nonzero (zip (flat A) (flat V))"
  let ?p = "nrows A" and ?q = "ncols A"
  have dims: "nrows V = ?p" "ncols V = ?q" using shp by (simp_all add: shape_def)
  have len: "length (flat A) = ?p * ?q" "length (flat V) = ?p * ?q"
    using wf dims by (simp_all add: wf_matrix_def)
  have res: "matrix_subs [Mat A, Mat V] = Inr (PairTuple ?ps)"
    by (simp add: matrix_subs_two_matrices pairs_of_pair[OF wf shp])
  have keys: "map fst ?ps = filter (\<lambda>s. s \<noteq> Integer 0) (flat A)"
  proof -
    have "nonzero = (\<lambda>p. fst p \<noteq> Integer 0)" by (auto simp: nonzero_def)
    with filter_zip_fst[of "flat A" "flat V" "\<lambda>s. s \<noteq> Integer 0"] len show ?thesis
      by simp
  qed
  have count: "length ?ps = length (filter (\<lambda>s. s \<noteq> Integer 0) (flat A))"
    using arg_cong[OF keys, of length] by simp
  have cell: "getitem2 A i j = Inr (flat A ! (i * ?q + j)) \<and>
              getitem2 V i j = Inr (flat V ! (i * ?q + j)) \<and>
              (flat A ! (i * ?q + j), flat V ! (i * ?q + j)) \<in> set (zip (flat A) (flat V))"
    if ij: "i < ?p" "j < ?q" for i j
  proof -
    from ij have "i * ?q + j < ?p * ?q" by (rule cell_in_range)
    with len zip_nth_mem[of "i * ?q + j" "flat A" "flat V"] ij dims show ?thesis
      by (simp add: getitem2_def)
  qed
  have member: "\<exists>s v. getitem2 A i j = Inr s \<and> getitem2 V i j = Inr v \<and>
               ((s, v) \<in> set ?ps \<longleftrightarrow> s \<noteq> Integer 0)" if ij: "i < ?p" "j < ?q" for i j
    using cell[OF ij] by (auto simp: nonzero_def)
  have restore: "\<exists>s v. getitem2 A i j = Inr s \<and> getitem2 V i j = Inr v \<and>
                  (s \<noteq> Integer 0 \<longrightarrow> subs ?ps s = v)"
    if ij: "i < ?p" "j < ?q"
      and d: "distinct (filter (\<lambda>s. s \<noteq> Integer 0) (flat A))"
      and sym: "\<forall>s \<in> set (flat A). s \<noteq> Integer 0 \<longrightarrow> is_symbol s"
      and num: "\<forall>v \<in> set (flat V). is_number v" for i j
  proof -
    let ?s = "flat A ! (i * ?q + j)" and ?v = "flat V ! (i * ?q + j)"
    have atoms: "\<forall>p \<in> set ?ps. is_symbol (fst p) \<and> is_number (snd p)"
      using sym num by (auto simp: nonzero_def dest: set_zip_leftD set_zip_rightD)
    have dk: "distinct (map fst ?ps)" using d keys by simp
    have "subs ?ps ?s = ?v" if "?s \<noteq> Integer 0"
    proof -
      from that cell[OF ij] have "(?s, ?v) \<in> set ?ps" by (simp add: nonzero_def)
      from subs_symbol[OF dk atoms this] show ?thesis .
    qed
    with cell[OF ij] show ?thesis by blast
  qed
  from res count member restore show ?thesis by blast
qed


text \<open>A diagonal matrix of two symbols: two pairs, and \<open>y\<close> becomes \<open>2\<close>.\<close>

theorem matrix_subs_pair_witness:
  "wf_matrix \<lparr>nrows = 2, ncols = 2, flat = [Symbol ''x'' [], Integer 0, Integer 0, Symbol ''y'' []]\<rparr> \<and>
   wf_matrix \<lparr>nrows = 2, ncols = 2, flat = [Integer 1, Integer 7, Integer 8, Integer 2]\<rparr> \<and>
   shape \<lparr>nrows = 2, ncols = 2, flat = [Symbol ''x'' [], Integer 0, Integer 0, Symbol ''y'' []]\<rparr>
     = shape \<lparr>nrows = 2, ncols = 2, flat = [Integer 1, Integer 7, Integer 8, Integer 2]\<rparr> \<and>
   matrix_subs [Mat \<lparr>nrows = 2, ncols = 2, flat = [Symbol ''x'' [], Integer 0, Integer 0, Symbol ''y'' []]\<rparr>,
                Mat \<lparr>nrows = 2, ncols = 2, flat = [Integer 1, Integer 7, Integer 8, Integer 2]\<rparr>]
     = Inr (PairTuple [(Symbol ''x'' [], Integer 1), (Symbol ''y'' [], Integer 2)]) \<and>
   subs [(Symbol ''x'' [], Integer 1), (Symbol ''y'' [], Integer 2)] (Symbol ''y'' []) = Integer 2"
proof -
  have wfs: "wf_matrix \<lparr>nrows = 2, ncols = 2, flat = [Symbol ''x'' [], Integer 0, Integer 0, Symbol ''y'' []]\<rparr>"
    "wf_matrix \<lparr>nrows = 2, ncols = 2, flat = [Integer 1, Integer 7, Integer 8, Integer 2]\<rparr>"
    by (simp_all add: wf_matrix_def)
  have shp: "shape \<lparr>nrows = 2, ncols = 2, flat = [Symbol ''x'' [], Integer 0, Integer 0, Symbol ''y'' []]\<rparr>
     = shape \<lparr>nrows = 2, ncols = 2, flat = [Integer 1, Integer 7, Integer 8, Integer 2]\<rparr>"
    by (simp add: shape_def)
  have sb: "subs [(Symbol ''x'' [], Integer 1), (Symbol ''y'' [], Integer 2)] (Symbol ''y'' []) = Integer 2"
    by (simp add: subs_def subs1.simps)
  from matrix_subs_pair[OF wfs shp] wfs shp sb show ?thesis
    by (simp add: nonzero_def)
qed


text \<open>
  Claim C5 says that a mapping from symbolic matrices to value matrices gives a mapping
  from symbols to values. The parameter \<^verbatim>\<open>*subs\<close> collects the arguments in a tuple, so
  the test \<^verbatim>\<open>isinstance(subs, (list, tuple))\<close> always holds and the dict branch is
  never taken: a dict argument is iterated as if it were a pair, and \<^verbatim>\<open>sub[0]\<close> looks
  up the key \<open>0\<close> in it.
\<close>

theorem matrix_subs_dict_raises: "matrix_subs [Dict d] = Inl KeyError"
  by (simp add: matrix_subs_def pairs_of_def)


section \<open>Claim about \<open>construct_explicit_matrix\<close>\<close>



section \<open>Claim about \<open>block_matrix\<close>\<close>

text \<open>
  Claim C9 says that every rectangular grid of blocks with matching dimensions is
  assembled. \<open>block_matrix\<close> passes all the blocks of a row to \<^verbatim>\<open>row_join\<close> at once,
  and \<^verbatim>\<open>row_join\<close> joins exactly two matrices: a grid with three blocks in a row
  raises \<open>TypeError\<close>, whatever the blocks are.
\<close>

theorem block_matrix_three_blocks: "block_matrix [[A, B, C], [D, E, F]] = Inl TypeError"
  by (simp add: block_matrix_def)

end
